theory Spec2Isabelle
  imports Complex_Main
begin

section \<open>Numeric values\<close>

text \<open>
  The exceptions that the modelled functions can raise. \<open>InvalidInputError\<close> is the
  specification's name for a sample grid that the interpolation utility rejects.
\<close>

datatype exn = ZeroDivisionError | IndexError | ValueError | TypeError
  | UnboundLocalError | InvalidInputError

text \<open>
  An element of a numpy floating-point array: a finite value, one of the two infinities,
  or not-a-number. Finite values are taken as real numbers, so rounding, overflow and the
  sign of zero are left out; what is kept is the behaviour that decides the properties
  below: numpy arithmetic never raises, a division by zero gives an infinity or NaN, and
  NaN spreads through every later operation and compares false with everything.
\<close>

datatype npfloat = Fin real | PInf | NInf | NaN

fun sign_of :: "npfloat \<Rightarrow> real" where
  "sign_of (Fin a) = sgn a"
| "sign_of PInf = 1"
| "sign_of NInf = - 1"
| "sign_of NaN = 0"

definition inf_of_sign :: "real \<Rightarrow> npfloat" where
  "inf_of_sign s = (if 0 < s then PInf else if s < 0 then NInf else NaN)"

fun fneg :: "npfloat \<Rightarrow> npfloat" where
  "fneg (Fin a) = Fin (- a)"
| "fneg PInf = NInf"
| "fneg NInf = PInf"
| "fneg NaN = NaN"

fun fadd :: "npfloat \<Rightarrow> npfloat \<Rightarrow> npfloat" where
  "fadd NaN y = NaN"
| "fadd x NaN = NaN"
| "fadd (Fin a) (Fin b) = Fin (a + b)"
| "fadd PInf NInf = NaN"
| "fadd NInf PInf = NaN"
| "fadd PInf y = PInf"
| "fadd NInf y = NInf"
| "fadd (Fin a) y = y"

definition fsub :: "npfloat \<Rightarrow> npfloat \<Rightarrow> npfloat" where
  "fsub x y = fadd x (fneg y)"

fun fmul :: "npfloat \<Rightarrow> npfloat \<Rightarrow> npfloat" where
  "fmul NaN y = NaN"
| "fmul x NaN = NaN"
| "fmul (Fin a) (Fin b) = Fin (a * b)"
| "fmul x y = inf_of_sign (sign_of x * sign_of y)"

text \<open>
  Division: a finite nonzero value over zero is an infinity, zero over zero and infinity
  over infinity are NaN, a finite value over an infinity is zero.
\<close>

fun fdiv :: "npfloat \<Rightarrow> npfloat \<Rightarrow> npfloat" where
  "fdiv NaN y = NaN"
| "fdiv x NaN = NaN"
| "fdiv (Fin a) (Fin b) = (if b = 0 then inf_of_sign (sgn a) else Fin (a / b))"
| "fdiv (Fin a) y = Fin 0"
| "fdiv x (Fin b) = inf_of_sign (sign_of x * (if b < 0 then - 1 else 1))"
| "fdiv x y = NaN"

fun fabs :: "npfloat \<Rightarrow> npfloat" where
  "fabs (Fin a) = Fin \<bar>a\<bar>"
| "fabs PInf = PInf"
| "fabs NInf = PInf"
| "fabs NaN = NaN"

fun fsqrt :: "npfloat \<Rightarrow> npfloat" where
  "fsqrt (Fin a) = (if a < 0 then NaN else Fin (sqrt a))"
| "fsqrt PInf = PInf"
| "fsqrt NInf = NaN"
| "fsqrt NaN = NaN"

definition fsq :: "npfloat \<Rightarrow> npfloat" where
  "fsq x = fmul x x"

fun fle :: "npfloat \<Rightarrow> npfloat \<Rightarrow> bool" where
  "fle NaN y = False"
| "fle x NaN = False"
| "fle (Fin a) (Fin b) = (a \<le> b)"
| "fle NInf y = True"
| "fle x PInf = True"
| "fle x y = False"

fun flt :: "npfloat \<Rightarrow> npfloat \<Rightarrow> bool" where
  "flt NaN y = False"
| "flt x NaN = False"
| "flt (Fin a) (Fin b) = (a < b)"
| "flt PInf y = False"
| "flt x NInf = False"
| "flt x y = True"

text \<open>
  The accumulators of \<open>residcalc\<close> start as the Python integer \<open>0\<close> and become numpy
  floats with the first \<open>+=\<close> of an array element. The difference matters: a Python
  integer divided by the Python integer zero raises \<open>ZeroDivisionError\<close>, while a
  division with a numpy float operand returns an infinity or NaN. \<open>Float\<close> also stands
  for the Python float that a quotient of two integers is; no such value is ever a divisor.
\<close>

datatype pynum = PyInt int | Float npfloat

fun to_float :: "pynum \<Rightarrow> npfloat" where
  "to_float (PyInt k) = Fin (of_int k)"
| "to_float (Float x) = x"

definition py_iadd :: "pynum \<Rightarrow> npfloat \<Rightarrow> pynum" where
  "py_iadd s x = Float (fadd (to_float s) x)"

fun py_truediv :: "pynum \<Rightarrow> pynum \<Rightarrow> exn + pynum" where
  "py_truediv (PyInt a) (PyInt b) =
     (if b = 0 then Inl ZeroDivisionError else Inr (Float (Fin (of_int a / of_int b))))"
| "py_truediv x y = Inr (Float (fdiv (to_float x) (to_float y)))"

fun py_square :: "pynum \<Rightarrow> pynum" where
  "py_square (PyInt a) = PyInt (a * a)"
| "py_square (Float x) = Float (fsq x)"

section \<open>Arrays\<close>

type_synonym arr1 = "npfloat list"
type_synonym arr2 = "npfloat list list"

text \<open>\<open>a[i]\<close> for an integer \<open>i\<close>: a negative index counts from the end.\<close>

definition getitem :: "'a list \<Rightarrow> int \<Rightarrow> exn + 'a" where
  "getitem xs i =
     (if 0 \<le> i \<and> i < int (length xs) then Inr (xs ! nat i)
      else if i < 0 \<and> - int (length xs) \<le> i then Inr (xs ! nat (int (length xs) + i))
      else Inl IndexError)"

text \<open>\<open>a[i]\<close> for a loop counter \<open>i\<close> that is never negative.\<close>

definition row :: "'a list \<Rightarrow> nat \<Rightarrow> exn + 'a" where
  "row xs i = (if i < length xs then Inr (xs ! i) else Inl IndexError)"

text \<open>\<open>a[idx]\<close> for an index array \<open>idx\<close>, as \<open>np.where\<close> returns it.\<close>

fun take_indices :: "'a list \<Rightarrow> nat list \<Rightarrow> exn + 'a list" where
  "take_indices xs [] = Inr []"
| "take_indices xs (i # is) =
     (if i < length xs
      then (case take_indices xs is of Inl e \<Rightarrow> Inl e | Inr vs \<Rightarrow> Inr (xs ! i # vs))
      else Inl IndexError)"

text \<open>\<open>np.where(a <= v)\<close>: the positions of \<open>a\<close> whose element is at most \<open>v\<close>.\<close>

definition where_le :: "arr1 \<Rightarrow> npfloat \<Rightarrow> nat list" where
  "where_le a v = filter (\<lambda>i. fle (a ! i) v) [0..<length a]"

section \<open>Interpolation\<close>

fun strictly_increasing :: "arr1 \<Rightarrow> bool" where
  "strictly_increasing (a # b # xs) = (flt a b \<and> strictly_increasing (b # xs))"
| "strictly_increasing xs = True"

fun strictly_decreasing :: "arr1 \<Rightarrow> bool" where
  "strictly_decreasing (a # b # xs) = (flt b a \<and> strictly_decreasing (b # xs))"
| "strictly_decreasing xs = True"

text \<open>
  The piecewise-linear interpolant over an ascending grid of at least two points, at one
  query position: the segment is the one whose right end is the first grid point not
  below the query, clipped to the first and the last segment, and the value is read off
  the line through the segment's two samples, also outside the grid.
\<close>

definition linear_eval :: "arr1 \<Rightarrow> arr1 \<Rightarrow> npfloat \<Rightarrow> npfloat" where
  "linear_eval xs ys q =
     (let idx = length (takeWhile (\<lambda>xi. flt xi q) xs);
          hi = max 1 (min idx (length xs - 1));
          lo = hi - 1;
          slope = fdiv (fsub (ys ! hi) (ys ! lo)) (fsub (xs ! hi) (xs ! lo))
      in fadd (fmul slope (fsub q (xs ! lo))) (ys ! lo))"

text \<open>
  Modelled from the spec: \<open>scipy.interpolate.interp1d(x, y, fill_value='extrapolate')\<close>,
  a library function that is not part of the repository. Following section 4.1 of the
  specification, it takes strictly monotonic sample positions and their values, fails
  with \<open>InvalidInputError\<close> on fewer than two points and on duplicate or non-monotonic
  positions, and otherwise gives the piecewise-linear interpolant, which extrapolates
  linearly outside the grid.
\<close>

definition interp1d :: "arr1 \<Rightarrow> arr1 \<Rightarrow> exn + (npfloat \<Rightarrow> npfloat)" where
  "interp1d x y =
     (if length x \<noteq> length y \<or> length x < 2 then Inl InvalidInputError
      else if strictly_increasing x then Inr (linear_eval x y)
      else if strictly_decreasing x then Inr (linear_eval (rev x) (rev y))
      else Inl InvalidInputError)"

section \<open>Overlap residuals\<close>

text \<open>
  The rows of a table extension: one record per spectral order, each column a vector over
  the pixels of the order. \<open>filedata['flux']\<close> is the list of the rows' \<open>flux\<close> fields.
\<close>

record order_row =
  wavelength :: arr1
  net :: arr1
  flux :: arr1
  error :: arr1
  net_error :: arr1

type_synonym filedata = "order_row list"

definition column :: "(order_row \<Rightarrow> arr1) \<Rightarrow> filedata \<Rightarrow> arr2" where
  "column c fd = map c fd"

text \<open>
  The inner loop of \<open>residcalc\<close> (lines 121 to 127): \<open>i\<close> runs from \<open>ntrim\<close> while it is
  below \<open>n - ntrim\<close>, where \<open>n\<close> is the size of the overlap index set.
\<close>

type_synonym accums = "pynum \<times> pynum \<times> pynum \<times> pynum"

function trim_loop ::
  "arr1 \<Rightarrow> arr1 \<Rightarrow> arr1 \<Rightarrow> arr1 \<Rightarrow> int \<Rightarrow> int \<Rightarrow> int \<Rightarrow> accums \<Rightarrow> exn + accums" where
  "trim_loop f0 f1 g0 g1 n ntrim i (fluxsum0, fluxsum1, errsum0, errsum1) =
     (if i < n - ntrim then
        (case getitem f0 i of Inl e \<Rightarrow> Inl e | Inr a0 \<Rightarrow>
         (case getitem f1 i of Inl e \<Rightarrow> Inl e | Inr a1 \<Rightarrow>
          (case getitem g0 i of Inl e \<Rightarrow> Inl e | Inr b0 \<Rightarrow>
           (case getitem g1 i of Inl e \<Rightarrow> Inl e | Inr b1 \<Rightarrow>
              trim_loop f0 f1 g0 g1 n ntrim (i + 1)
                (py_iadd fluxsum0 a0, py_iadd fluxsum1 a1,
                 py_iadd errsum0 (fsq b0), py_iadd errsum1 (fsq b1))))))
      else Inr (fluxsum0, fluxsum1, errsum0, errsum1))"
  by pat_completeness auto
termination
  by (relation "measure (\<lambda>(f0, f1, g0, g1, n, ntrim, i, s). nat (n - ntrim - i))") auto

declare trim_loop.simps [simp del]

text \<open>
  Lines 128 to 134: the residual and its error from the four sums, with the fallback of
  the \<open>except ZeroDivisionError\<close> branch.
\<close>

definition resid_of_sums :: "accums \<Rightarrow> npfloat \<times> npfloat" where
  "resid_of_sums s =
     (case s of (fluxsum0, fluxsum1, errsum0, errsum1) \<Rightarrow>
        (case py_truediv fluxsum0 fluxsum1 of
           Inl e \<Rightarrow> (Fin 0, Fin 1)
         | Inr q \<Rightarrow>
             (let resid = fsub (Fin 1) (to_float q) in
              (case py_truediv errsum0 (py_square fluxsum0) of
                 Inl e \<Rightarrow> (Fin 0, Fin 1)
               | Inr t0 \<Rightarrow>
                   (case py_truediv errsum1 (py_square fluxsum1) of
                      Inl e \<Rightarrow> (Fin 0, Fin 1)
                    | Inr t1 \<Rightarrow>
                        (resid,
                         fmul (fabs (fsub (Fin 1) resid))
                           (fsqrt (fadd (to_float t0) (to_float t1)))))))))"

text \<open>The overlap index set of order \<open>order\<close> (line 112).\<close>

definition overlap_of :: "arr2 \<Rightarrow> nat \<Rightarrow> exn + nat list" where
  "overlap_of wl order =
     (case row wl order of Inl e \<Rightarrow> Inl e | Inr w0 \<Rightarrow>
      (case row wl (order + 1) of Inl e \<Rightarrow> Inl e | Inr w1 \<Rightarrow>
       (case getitem w1 (- 1) of Inl e \<Rightarrow> Inl e | Inr v \<Rightarrow> Inr (where_le w0 v))))"

text \<open>The four sums of one adjacent pair (lines 110 to 127).\<close>

definition pair_sums :: "arr2 \<Rightarrow> arr2 \<Rightarrow> arr2 \<Rightarrow> int \<Rightarrow> nat \<Rightarrow> exn + accums" where
  "pair_sums wl fl er ntrim order =
     (case row wl (order + 1) of Inl e \<Rightarrow> Inl e | Inr w1 \<Rightarrow>
      (case row fl (order + 1) of Inl e \<Rightarrow> Inl e | Inr fl1 \<Rightarrow>
       (case interp1d w1 fl1 of Inl e \<Rightarrow> Inl e | Inr f \<Rightarrow>
        (case row er (order + 1) of Inl e \<Rightarrow> Inl e | Inr er1 \<Rightarrow>
         (case interp1d w1 er1 of Inl e \<Rightarrow> Inl e | Inr g \<Rightarrow>
          (case overlap_of wl order of Inl e \<Rightarrow> Inl e | Inr overlap \<Rightarrow>
           (case row fl order of Inl e \<Rightarrow> Inl e | Inr fl0 \<Rightarrow>
            (case take_indices fl0 overlap of Inl e \<Rightarrow> Inl e | Inr f0 \<Rightarrow>
             (case take_indices (wl ! order) overlap of Inl e \<Rightarrow> Inl e | Inr w0 \<Rightarrow>
              (case row er order of Inl e \<Rightarrow> Inl e | Inr er0 \<Rightarrow>
               (case take_indices er0 overlap of Inl e \<Rightarrow> Inl e | Inr g0 \<Rightarrow>
                  trim_loop f0 (map f w0) g0 (map g w0) (int (length overlap)) ntrim ntrim
                    (PyInt 0, PyInt 0, PyInt 0, PyInt 0))))))))))))"

text \<open>
  The loop over the adjacent pairs (lines 107 to 135), writing into the two arrays that
  line 105 and 106 allocate.
\<close>

function residcalc_loop ::
  "arr2 \<Rightarrow> arr2 \<Rightarrow> arr2 \<Rightarrow> int \<Rightarrow> nat \<Rightarrow> arr1 \<Rightarrow> arr1 \<Rightarrow> exn + (arr1 \<times> arr1)" where
  "residcalc_loop wl fl er ntrim order resids residerr =
     (if order < length fl - 1 then
        (case pair_sums wl fl er ntrim order of
           Inl e \<Rightarrow> Inl e
         | Inr s \<Rightarrow>
             residcalc_loop wl fl er ntrim (order + 1)
               (resids[order := fst (resid_of_sums s)])
               (residerr[order := snd (resid_of_sums s)]))
      else Inr (resids, residerr))"
  by pat_completeness auto
termination
  by (relation "measure (\<lambda>(wl, fl, er, ntrim, order, rs, es). length fl - 1 - order)") auto

declare residcalc_loop.simps [simp del]

text \<open>Lines 99 to 102: the arrays passed by keyword win over the columns of the table.\<close>

definition flux_used :: "filedata \<Rightarrow> arr2 option \<Rightarrow> arr2" where
  "flux_used fd flux_arg = (case flux_arg of None \<Rightarrow> column flux fd | Some a \<Rightarrow> a)"

definition err_used :: "filedata \<Rightarrow> arr2 option \<Rightarrow> arr2" where
  "err_used fd err_arg = (case err_arg of None \<Rightarrow> column error fd | Some a \<Rightarrow> a)"

text \<open>
  \<open>residcalc(filedata, flux=None, err=None, ntrim=5)\<close>. With no order at all,
  \<open>np.zeros(shape[0] - 1)\<close> is asked for a negative size and raises.
\<close>

definition residcalc ::
  "filedata \<Rightarrow> arr2 option \<Rightarrow> arr2 option \<Rightarrow> int \<Rightarrow> exn + (arr1 \<times> arr1)" where
  "residcalc fd flux_arg err_arg ntrim =
     (let fl = flux_used fd flux_arg;
          er = err_used fd err_arg;
          wl = column wavelength fd
      in if length fl = 0 then Inl ValueError
         else residcalc_loop wl fl er ntrim 0
                (replicate (length fl - 1) (Fin 0)) (replicate (length fl - 1) (Fin 0)))"

section \<open>Blaze shift and flux recomputation\<close>

text \<open>
  \<open>np.divide\<close> on two 2-D arrays of one shape, element by element; it allocates its
  result. Arrays of different shapes are rejected here (broadcasting is not modelled).
\<close>

definition np_divide :: "arr2 \<Rightarrow> arr2 \<Rightarrow> exn + arr2" where
  "np_divide a b =
     (if map length a = map length b then Inr (map2 (map2 fdiv) a b) else Inl ValueError)"

definition pixel_count :: "arr2 \<Rightarrow> nat" where
  "pixel_count a = (case a of [] \<Rightarrow> 0 | r # rs \<Rightarrow> length r)"

text \<open>
  \<open>fluxcorrect\<close> assigns into an array (line 78), so it is modelled over a memory of
  2-D arrays: a cell per array, an address is the position of the cell, and a new array
  takes the next free cell. The table passed as \<open>filedata\<close> is the five addresses of
  its columns.
\<close>

type_synonym memory = "arr2 list"

record table_ref =
  wavelength_at :: nat
  net_at :: nat
  flux_at :: nat
  error_at :: nat
  net_error_at :: nat

definition alloc :: "memory \<Rightarrow> arr2 \<Rightarrow> memory \<times> nat" where
  "alloc m a = (m @ [a], length m)"

text \<open>
  The loop of lines 76 to 79 over the \<open>n\<close> orders; \<open>origblaze\<close> and \<open>newblaze\<close> are the
  addresses of the two local arrays.
\<close>

function shift_loop ::
  "memory \<Rightarrow> nat \<Rightarrow> nat \<Rightarrow> arr1 \<Rightarrow> arr1 \<Rightarrow> nat \<Rightarrow> nat \<Rightarrow> exn + memory" where
  "shift_loop m origblaze newblaze pixnos pixshift n order =
     (if order < n then
        (case interp1d pixnos (m ! origblaze ! order) of Inl e \<Rightarrow> Inl e | Inr f \<Rightarrow>
         (case row pixshift order of Inl e \<Rightarrow> Inl e | Inr sh \<Rightarrow>
            shift_loop
              (m[newblaze := (m ! newblaze)[order := map (\<lambda>p. f (fsub p sh)) pixnos]])
              origblaze newblaze pixnos pixshift n (order + 1)))
      else Inr m)"
  by pat_completeness auto
termination
  by (relation "measure (\<lambda>(m, ob, nb, px, ps, n, order). n - order)") auto

declare shift_loop.simps [simp del]

definition fluxcorrect_mem ::
  "memory \<Rightarrow> table_ref \<Rightarrow> arr1 \<Rightarrow> exn + (memory \<times> nat \<times> nat)" where
  "fluxcorrect_mem m fd pixshift =
     (case np_divide (m ! net_at fd) (m ! flux_at fd) of Inl e \<Rightarrow> Inl e | Inr quot \<Rightarrow>
      (let (m1, origblaze) = alloc m quot;
           shape = (length quot, pixel_count quot);
           (m2, newblaze) = alloc m1 (replicate (fst shape) (replicate (snd shape) (Fin 0)));
           pixnos = map (\<lambda>k. Fin (real k)) [0..<snd shape]
       in (case shift_loop m2 origblaze newblaze pixnos pixshift (fst shape) 0 of
             Inl e \<Rightarrow> Inl e
           | Inr m3 \<Rightarrow>
             (case np_divide (m3 ! net_at fd) (m3 ! newblaze) of Inl e \<Rightarrow> Inl e | Inr q1 \<Rightarrow>
              (let (m4, newflux) = alloc m3 q1 in
               (case np_divide (m4 ! net_error_at fd) (m4 ! newblaze) of
                  Inl e \<Rightarrow> Inl e
                | Inr q2 \<Rightarrow>
                    (let (m5, newerr) = alloc m4 q2 in Inr (m5, newflux, newerr))))))))"

text \<open>
  The same function on values, for its callers: the table is laid out in a memory of its
  own and the two results are read back.
\<close>

definition load_table :: "filedata \<Rightarrow> memory" where
  "load_table fd =
     [column wavelength fd, column net fd, column flux fd, column error fd,
      column net_error fd]"

definition loaded_at :: table_ref where
  "loaded_at = \<lparr>wavelength_at = 0, net_at = 1, flux_at = 2, error_at = 3, net_error_at = 4\<rparr>"

definition fluxcorrect :: "filedata \<Rightarrow> arr1 \<Rightarrow> exn + (arr2 \<times> arr2)" where
  "fluxcorrect fd pixshift =
     (case fluxcorrect_mem (load_table fd) loaded_at pixshift of
        Inl e \<Rightarrow> Inl e
      | Inr (m, newflux, newerr) \<Rightarrow> Inr (m ! newflux, m ! newerr))"

section \<open>Objective function and solver driver\<close>

text \<open>
  An \<open>lmfit\<close> parameter: its value, whether the fit may vary it, and its standard error,
  which is \<open>None\<close> until a fit has estimated it.
\<close>

record parameter =
  pvalue :: npfloat
  vary :: bool
  stderr :: "npfloat option"

record params =
  par_a :: parameter
  par_b :: parameter

text \<open>The linear shift model \<open>a + b*x\<close> over the relative orders \<open>x\<close>.\<close>

definition linear_shift :: "npfloat \<Rightarrow> npfloat \<Rightarrow> nat list \<Rightarrow> arr1" where
  "linear_shift a b x = map (\<lambda>k. fadd a (fmul b (Fin (real k)))) x"

definition residfunc :: "params \<Rightarrow> nat list \<Rightarrow> filedata \<Rightarrow> exn + arr1" where
  "residfunc pars x fd =
     (let a = pvalue (par_a pars);
          b = pvalue (par_b pars);
          pixshift = linear_shift a b x
      in (case fluxcorrect fd pixshift of Inl e \<Rightarrow> Inl e | Inr new \<Rightarrow>
          (case residcalc fd (Some (fst new)) (Some (snd new)) 5 of
             Inl e \<Rightarrow> Inl e
           | Inr temp \<Rightarrow> Inr (map2 (\<lambda>r s. fabs (fdiv r s)) (fst temp) (snd temp)))))"

text \<open>
  \<open>lmfit.minimize\<close> is a library function and stays a parameter of the model: it is
  given the objective function and the starting parameters and returns the fitted ones,
  or raises.
\<close>

type_synonym minimizer = "(params \<Rightarrow> exn + arr1) \<Rightarrow> params \<Rightarrow> exn + params"

type_synonym fitted = "(npfloat \<times> npfloat option) \<times> (npfloat \<times> npfloat option)"

text \<open>
  Lines 241 to 245: the two parameters start at the guess and may vary unless \<open>iterate\<close>
  is false. Line 244 reads \<open>if !iterate:\<close>, which is taken as \<open>if not iterate:\<close>.
\<close>

definition start_params :: "npfloat \<times> npfloat \<Rightarrow> bool \<Rightarrow> params" where
  "start_params guess iterate =
     (let pa = \<lparr>pvalue = fst guess, vary = True, stderr = None\<rparr>;
          pb = \<lparr>pvalue = snd guess, vary = True, stderr = None\<rparr>
      in if \<not> iterate
         then \<lparr>par_a = pa\<lparr>vary := False\<rparr>, par_b = pb\<lparr>vary := False\<rparr>\<rparr>
         else \<lparr>par_a = pa, par_b = pb\<rparr>)"

text \<open>
  \<open>findshift(filedata, guess, iterate=True)\<close>. Squaring or multiplying a standard error
  that is \<open>None\<close> raises \<open>TypeError\<close> (line 251).
\<close>

definition findshift ::
  "minimizer \<Rightarrow> filedata \<Rightarrow> npfloat \<times> npfloat \<Rightarrow> bool \<Rightarrow> exn + (arr1 \<times> arr1 \<times> fitted)" where
  "findshift minimize fd guess iterate =
     (let x = [0..<length fd];
          pars = start_params guess iterate
      in (case minimize (\<lambda>p. residfunc p x fd) pars of Inl e \<Rightarrow> Inl e | Inr mn \<Rightarrow>
          (let a = (pvalue (par_a mn), stderr (par_a mn));
               b = (pvalue (par_b mn), stderr (par_b mn));
               pixshift = linear_shift (fst a) (fst b) x
           in (case snd a of None \<Rightarrow> Inl TypeError | Some sa \<Rightarrow>
               (case snd b of None \<Rightarrow> Inl TypeError | Some sb \<Rightarrow>
                  Inr (pixshift,
                       map (\<lambda>k. fsqrt (fadd (fsq sa) (fsq (fmul (Fin (real k)) sb)))) x,
                       (a, b)))))))"

text \<open>
  Modelled from the spec: \<open>lmfit.minimize\<close>, a library function that is not part of the
  repository, called with parameters that may not vary. Following section 4.5 of the
  specification, both parameters are held fixed at their starting values and their
  standard errors stay undefined: the parameters come back as they went in.
\<close>

definition held_fit :: minimizer where
  "held_fit f p = Inr p"

section \<open>Batch driver\<close>

text \<open>
  \<open>generateplot\<close> computes the residuals before and after the correction (lines 160 to
  166) and draws them; only the two computations, which can raise, are modelled.
\<close>

definition generateplot ::
  "filedata \<Rightarrow> arr2 \<Rightarrow> arr2 \<Rightarrow> arr1 \<Rightarrow> exn + ((arr1 \<times> arr1) \<times> (arr1 \<times> arr1))" where
  "generateplot origdata newflux newerr pixshift =
     (case residcalc origdata None None 5 of Inl e \<Rightarrow> Inl e | Inr old \<Rightarrow>
      (case residcalc origdata (Some newflux) (Some newerr) 5 of
         Inl e \<Rightarrow> Inl e
       | Inr new \<Rightarrow> Inr (old, new)))"

text \<open>
  An opened file is its list of header-data units: unit 0 is the primary one, the others
  are the table extensions.
\<close>

record hdu =
  header :: "string list"
  data :: filedata

text \<open>
  The local variables \<open>newflux\<close> and \<open>newerr\<close> of \<open>fluxfix\<close>: unbound until an extension
  has been processed, and then kept, also into the next file.
\<close>

type_synonym locals = "(arr2 \<times> arr2) option"

text \<open>The loop over the extensions of one file (lines 276 to 287).\<close>

function ext_loop ::
  "minimizer \<Rightarrow> npfloat \<times> npfloat \<Rightarrow> hdu list \<Rightarrow> nat \<Rightarrow> locals \<Rightarrow> exn + locals" where
  "ext_loop minimize guess file i loc =
     (if i < length file then
        (let filedata = data (file ! i) in
         (case findshift minimize filedata guess True of Inl e \<Rightarrow> Inl e | Inr shift \<Rightarrow>
          (case fluxcorrect filedata (fst shift) of Inl e \<Rightarrow> Inl e | Inr new \<Rightarrow>
           (case generateplot filedata (fst new) (snd new) (fst shift) of
              Inl e \<Rightarrow> Inl e
            | Inr graph \<Rightarrow> ext_loop minimize guess file (i + 1) (Some new)))))
      else Inr loc)"
  by pat_completeness auto
termination
  by (relation "measure (\<lambda>(mn, g, file, i, loc). length file - i)") auto

declare ext_loop.simps [simp del]

text \<open>
  \<open>filedata['flux'] = newflux\<close> and \<open>filedata['error'] = newerr\<close> on a table: the
  column is replaced row by row; an array of another shape is rejected.
\<close>

definition set_flux :: "filedata \<Rightarrow> arr2 \<Rightarrow> exn + filedata" where
  "set_flux fd a =
     (if map length a = map length (column flux fd)
      then Inr (map2 (\<lambda>r v. r\<lparr>flux := v\<rparr>) fd a) else Inl ValueError)"

definition set_error :: "filedata \<Rightarrow> arr2 \<Rightarrow> exn + filedata" where
  "set_error fd a =
     (if map length a = map length (column error fd)
      then Inr (map2 (\<lambda>r v. r\<lparr>error := v\<rparr>) fd a) else Inl ValueError)"

text \<open>
  The body of the loop over the files (lines 274 to 302) for one opened file: the units
  that \<open>writeto\<close> saves, and the local variables afterwards. \<open>stamp\<close> is the comment
  with the date. After the loop \<open>filedata\<close> is the table of the last extension; in a
  file without extensions it is still a table of an earlier file, so nothing of this
  file changes. The name of the saved file is not modelled.
\<close>

definition fluxfix_file ::
  "minimizer \<Rightarrow> npfloat \<times> npfloat \<Rightarrow> string \<Rightarrow> hdu list \<Rightarrow> locals \<Rightarrow> exn + (hdu list \<times> locals)" where
  "fluxfix_file minimize guess stamp file loc =
     (case ext_loop minimize guess file 1 loc of Inl e \<Rightarrow> Inl e | Inr loc' \<Rightarrow>
      (case row file 0 of Inl e \<Rightarrow> Inl e | Inr primary \<Rightarrow>
       (let file1 = file[0 := primary\<lparr>header := header primary @ [stamp]\<rparr>] in
        (case loc' of None \<Rightarrow> Inl UnboundLocalError | Some new \<Rightarrow>
           (if 1 < length file1 then
              (let k = length file1 - 1 in
               (case set_flux (data (file1 ! k)) (fst new) of Inl e \<Rightarrow> Inl e | Inr d1 \<Rightarrow>
                (case set_error d1 (snd new) of Inl e \<Rightarrow> Inl e | Inr d2 \<Rightarrow>
                   Inr (file1[k := (file1 ! k)\<lparr>data := d2\<rparr>], loc'))))
            else Inr (file1, loc'))))))"

text \<open>
  \<open>fluxfix\<close> over the opened files, returning what is saved for each. Line 255 reads
  \<open>iterate=True **kwargs\<close>, which is taken as \<open>iterate=True, **kwargs\<close>. Line 279 calls
  \<open>findshift\<close> without \<open>iterate\<close>, so the argument \<open>iterate\<close> of \<open>fluxfix\<close> has no
  effect.
\<close>

fun fluxfix_loop ::
  "minimizer \<Rightarrow> npfloat \<times> npfloat \<Rightarrow> string \<Rightarrow> hdu list list \<Rightarrow> locals \<Rightarrow> exn + hdu list list" where
  "fluxfix_loop minimize guess stamp [] loc = Inr []"
| "fluxfix_loop minimize guess stamp (file # files) loc =
     (case fluxfix_file minimize guess stamp file loc of Inl e \<Rightarrow> Inl e | Inr r \<Rightarrow>
      (case fluxfix_loop minimize guess stamp files (snd r) of
         Inl e \<Rightarrow> Inl e
       | Inr saved \<Rightarrow> Inr (fst r # saved)))"

definition fluxfix ::
  "minimizer \<Rightarrow> hdu list list \<Rightarrow> (npfloat \<times> npfloat) option \<Rightarrow> bool \<Rightarrow> string \<Rightarrow> exn + hdu list list" where
  "fluxfix minimize files guess iterate date =
     (let guess' = (case guess of None \<Rightarrow> (Fin 1, Fin (1 / 2)) | Some g \<Rightarrow> g)
      in fluxfix_loop minimize guess' (''Spectra corrected using stisfix on '' @ date) files None)"

section \<open>The specification's wording\<close>

text \<open>
  Section 4.3 b of the specification: the pixels of an order whose wavelength is at most
  the last wavelength of the next order.
\<close>

definition spec_overlap :: "arr1 \<Rightarrow> arr1 \<Rightarrow> nat list" where
  "spec_overlap w0 w1 = filter (\<lambda>i. fle (w0 ! i) (last w1)) [0..<length w0]"

text \<open>Section 4.3 d: a sequence without its first \<open>k\<close> and its last \<open>k\<close> entries.\<close>

definition spec_trimmed :: "nat \<Rightarrow> 'a list \<Rightarrow> 'a list" where
  "spec_trimmed k xs = drop k (take (length xs - k) xs)"

text \<open>
  Section 8.6 of the specification, the continuation of a boundary segment: the value at
  \<open>q\<close> of the straight line through the samples \<open>(x0, y0)\<close> and \<open>(x1, y1)\<close>.
\<close>

definition spec_line :: "npfloat \<Rightarrow> npfloat \<Rightarrow> npfloat \<Rightarrow> npfloat \<Rightarrow> npfloat \<Rightarrow> npfloat" where
  "spec_line x0 y0 x1 y1 q = fadd (fmul (fdiv (fsub y1 y0) (fsub x1 x0)) (fsub q x0)) y0"

text \<open>Section 3: a 2-D array of \<open>n_orders\<close> rows of \<open>n_pix\<close> pixels each.\<close>

definition rectangular :: "nat \<Rightarrow> nat \<Rightarrow> arr2 \<Rightarrow> bool" where
  "rectangular n_orders n_pix a = (length a = n_orders \<and> list_all (\<lambda>r. length r = n_pix) a)"

text \<open>Section 3: the sensitivity curve of an order, \<open>net / flux\<close> pixel by pixel.\<close>

definition blaze_row :: "order_row \<Rightarrow> arr1" where
  "blaze_row r = map2 fdiv (net r) (flux r)"

text \<open>
  The sensitivity \<open>b\<close> of an order read back at pixel \<open>k\<close> through its interpolant over
  the pixel numbers, with no shift: the value at \<open>k - 0\<close> of the line through the samples
  \<open>k - 1\<close> and \<open>k\<close>, and through the samples 0 and 1 for the first pixel.
\<close>

definition resampled_blaze :: "arr1 \<Rightarrow> nat \<Rightarrow> npfloat" where
  "resampled_blaze b k =
     (let hi = max 1 k; lo = hi - 1
      in spec_line (Fin (real lo)) (b ! lo) (Fin (real hi)) (b ! hi) (fsub (Fin (real k)) (Fin 0)))"

section \<open>Example inputs\<close>

definition mk_row ::
  "real list \<Rightarrow> real list \<Rightarrow> real list \<Rightarrow> real list \<Rightarrow> real list \<Rightarrow> order_row" where
  "mk_row w n f e ne =
     \<lparr>wavelength = map Fin w, net = map Fin n, flux = map Fin f, error = map Fin e,
      net_error = map Fin ne\<rparr>"

text \<open>Two orders of eleven pixels whose flux is zero everywhere.\<close>

definition dark_exposure :: filedata where
  "dark_exposure =
     [mk_row [1, 2, 3, 4, 5, 6, 7, 8, 9, 10, 11] [0, 0, 0, 0, 0, 0, 0, 0, 0, 0, 0]
        [0, 0, 0, 0, 0, 0, 0, 0, 0, 0, 0] [0, 0, 0, 0, 0, 0, 0, 0, 0, 0, 0]
        [0, 0, 0, 0, 0, 0, 0, 0, 0, 0, 0],
      mk_row [2, 3, 4, 5, 6, 7, 8, 9, 10, 11, 12] [0, 0, 0, 0, 0, 0, 0, 0, 0, 0, 0]
        [0, 0, 0, 0, 0, 0, 0, 0, 0, 0, 0] [0, 0, 0, 0, 0, 0, 0, 0, 0, 0, 0]
        [0, 0, 0, 0, 0, 0, 0, 0, 0, 0, 0]]"

text \<open>Two orders of three pixels with signal.\<close>

definition short_exposure :: filedata where
  "short_exposure =
     [mk_row [1, 2, 3] [2, 2, 2] [1, 1, 1] [3, 0, 0] [6, 0, 0],
      mk_row [2, 3, 4] [4, 4, 4] [2, 2, 2] [0, 0, 0] [0, 0, 0]]"

text \<open>
  A minimizer for the examples: it returns the starting values, with the standard errors
  3 and 4.
\<close>

definition still_fit :: minimizer where
  "still_fit f p =
     Inr \<lparr>par_a = (par_a p)\<lparr>stderr := Some (Fin 3)\<rparr>,
          par_b = (par_b p)\<lparr>stderr := Some (Fin 4)\<rparr>\<rparr>"

text \<open>
  Two orders of three pixels. The first pixel of the first order has no counts, and the
  error column of the second order is not its count error over its sensitivity.
\<close>

definition gap_exposure :: filedata where
  "gap_exposure =
     [mk_row [1, 2, 3] [0, 2, 2] [0, 1, 1] [0, 1, 1] [0, 2, 2],
      mk_row [2, 3, 4] [4, 4, 4] [2, 2, 2] [5, 5, 5] [2, 2, 2]]"

text \<open>Two orders of three pixels whose sensitivity rises along the order.\<close>

definition tilted_exposure :: filedata where
  "tilted_exposure =
     [mk_row [1, 2, 3] [4, 6, 8] [1, 1, 1] [1, 1, 1] [4, 6, 8],
      mk_row [2, 3, 4] [4, 6, 8] [1, 1, 1] [1, 1, 1] [4, 6, 8]]"

text \<open>An opened file with a primary unit and two table extensions.\<close>

definition demo_file :: "hdu list" where
  "demo_file =
     [\<lparr>header = [''SIMPLE''], data = []\<rparr>,
      \<lparr>header = [''EXT1''], data = short_exposure\<rparr>,
      \<lparr>header = [''EXT2''], data = tilted_exposure\<rparr>]"

section \<open>Properties of the interpolation\<close>

lemma flt_trans: "flt a b \<Longrightarrow> flt b c \<Longrightarrow> flt a c"
  by (cases a; cases b; cases c) auto

lemma flt_asym: "flt a b \<Longrightarrow> \<not> flt b a"
  by (cases a; cases b) auto

lemma strictly_increasing_nth:
  "strictly_increasing xs = (\<forall>i. Suc i < length xs \<longrightarrow> flt (xs ! i) (xs ! Suc i))"
proof (induction xs rule: strictly_increasing.induct)
  case (1 a b xs)
  show ?case
  proof
    assume h: "strictly_increasing (a # b # xs)"
    show "\<forall>i. Suc i < length (a # b # xs) \<longrightarrow> flt ((a # b # xs) ! i) ((a # b # xs) ! Suc i)"
    proof (intro allI impI)
      fix i assume "Suc i < length (a # b # xs)"
      with h 1 show "flt ((a # b # xs) ! i) ((a # b # xs) ! Suc i)"
        by (cases i) auto
    qed
  next
    assume h: "\<forall>i. Suc i < length (a # b # xs) \<longrightarrow> flt ((a # b # xs) ! i) ((a # b # xs) ! Suc i)"
    then have "flt a b" by fastforce
    moreover have "\<forall>i. Suc i < length (b # xs) \<longrightarrow> flt ((b # xs) ! i) ((b # xs) ! Suc i)"
    proof (intro allI impI)
      fix i assume "Suc i < length (b # xs)"
      then have "Suc (Suc i) < length (a # b # xs)" by simp
      with h have "flt ((a # b # xs) ! Suc i) ((a # b # xs) ! Suc (Suc i))" by blast
      then show "flt ((b # xs) ! i) ((b # xs) ! Suc i)" by simp
    qed
    ultimately show "strictly_increasing (a # b # xs)" using 1 by simp
  qed
qed simp_all

lemma strictly_decreasing_nth:
  "strictly_decreasing xs = (\<forall>i. Suc i < length xs \<longrightarrow> flt (xs ! Suc i) (xs ! i))"
proof (induction xs rule: strictly_decreasing.induct)
  case (1 a b xs)
  show ?case
  proof
    assume h: "strictly_decreasing (a # b # xs)"
    show "\<forall>i. Suc i < length (a # b # xs) \<longrightarrow> flt ((a # b # xs) ! Suc i) ((a # b # xs) ! i)"
    proof (intro allI impI)
      fix i assume "Suc i < length (a # b # xs)"
      with h 1 show "flt ((a # b # xs) ! Suc i) ((a # b # xs) ! i)"
        by (cases i) auto
    qed
  next
    assume h: "\<forall>i. Suc i < length (a # b # xs) \<longrightarrow> flt ((a # b # xs) ! Suc i) ((a # b # xs) ! i)"
    then have "flt b a" by fastforce
    moreover have "\<forall>i. Suc i < length (b # xs) \<longrightarrow> flt ((b # xs) ! Suc i) ((b # xs) ! i)"
    proof (intro allI impI)
      fix i assume "Suc i < length (b # xs)"
      then have "Suc (Suc i) < length (a # b # xs)" by simp
      with h have "flt ((a # b # xs) ! Suc (Suc i)) ((a # b # xs) ! Suc i)" by blast
      then show "flt ((b # xs) ! Suc i) ((b # xs) ! i)" by simp
    qed
    ultimately show "strictly_decreasing (a # b # xs)" using 1 by simp
  qed
qed simp_all

lemma strictly_increasing_less:
  assumes "strictly_increasing xs" and "i < j" and "j < length xs"
  shows "flt (xs ! i) (xs ! j)"
  using assms(2,3)
proof (induction j)
  case 0
  then show ?case by simp
next
  case (Suc j)
  from assms(1) Suc.prems have step: "flt (xs ! j) (xs ! Suc j)"
    by (simp add: strictly_increasing_nth)
  show ?case
  proof (cases "i = j")
    case True
    with step show ?thesis by simp
  next
    case False
    with Suc have "flt (xs ! i) (xs ! j)" by simp
    then show ?thesis using step by (rule flt_trans)
  qed
qed

lemma strictly_decreasing_rev:
  assumes "strictly_decreasing xs"
  shows "strictly_increasing (rev xs)"
  unfolding strictly_increasing_nth
proof (intro allI impI)
  fix i assume i: "Suc i < length (rev xs)"
  then have a: "rev xs ! i = xs ! (length xs - Suc i)"
    and b: "rev xs ! Suc i = xs ! (length xs - Suc (Suc i))"
    by (simp_all add: rev_nth)
  from i have "Suc (length xs - Suc (Suc i)) = length xs - Suc i"
    and "Suc (length xs - Suc (Suc i)) < length xs" by simp_all
  with assms have "flt (xs ! (length xs - Suc i)) (xs ! (length xs - Suc (Suc i)))"
    unfolding strictly_decreasing_nth by metis
  with a b show "flt (rev xs ! i) (rev xs ! Suc i)" by simp
qed

lemma not_both_monotonic:
  assumes "2 \<le> length xs" and "strictly_increasing xs"
  shows "\<not> strictly_decreasing xs"
proof
  assume d: "strictly_decreasing xs"
  from assms(1) have "Suc 0 < length xs" by simp
  with assms(2) d have "flt (xs ! 0) (xs ! Suc 0)" "flt (xs ! Suc 0) (xs ! 0)"
    unfolding strictly_increasing_nth strictly_decreasing_nth by blast+
  then show False using flt_asym by blast
qed

lemma linear_eval_below:
  assumes "strictly_increasing xs" and "2 \<le> length xs" and "flt q (xs ! 0)"
  shows "linear_eval xs ys q = spec_line (xs ! 0) (ys ! 0) (xs ! 1) (ys ! 1) q"
proof -
  from assms(2) obtain a rest where xs: "xs = a # rest" by (cases xs) auto
  with assms(3) have "\<not> flt a q" using flt_asym by auto
  with xs have "takeWhile (\<lambda>xi. flt xi q) xs = []" by simp
  then show ?thesis
    using assms(2) by (simp add: linear_eval_def spec_line_def Let_def)
qed

lemma linear_eval_above:
  assumes "strictly_increasing xs" and "2 \<le> length xs" and "flt (last xs) q"
  shows "linear_eval xs ys q =
    spec_line (xs ! (length xs - 2)) (ys ! (length xs - 2))
      (xs ! (length xs - 1)) (ys ! (length xs - 1)) q"
proof -
  from assms(2) have ne: "xs \<noteq> []" by auto
  have "\<forall>v\<in>set xs. flt v q"
  proof
    fix v assume "v \<in> set xs"
    then obtain i where i: "i < length xs" "v = xs ! i" by (auto simp: in_set_conv_nth)
    show "flt v q"
    proof (cases "i = length xs - 1")
      case True
      with i ne assms(3) show ?thesis by (simp add: last_conv_nth)
    next
      case False
      with i have "i < length xs - 1" "length xs - 1 < length xs" by simp_all
      with assms(1) have "flt (xs ! i) (xs ! (length xs - 1))"
        by (rule strictly_increasing_less)
      with ne have "flt v (last xs)" using i by (simp add: last_conv_nth)
      then show ?thesis using assms(3) by (rule flt_trans)
    qed
  qed
  then have "takeWhile (\<lambda>xi. flt xi q) xs = xs"
    by (simp add: takeWhile_eq_all_conv)
  then have idx: "length (takeWhile (\<lambda>xi. flt xi q) xs) = length xs"
    by (rule arg_cong)
  from assms(2) have hi: "max 1 (min (length xs) (length xs - 1)) = length xs - 1"
    by simp
  from assms(2) have lo: "length xs - 1 - 1 = length xs - 2" by simp
  show ?thesis
    unfolding linear_eval_def Let_def idx hi lo spec_line_def by (rule refl)
qed

lemma flt_fle: "flt a b \<Longrightarrow> fle a b \<and> fle b b"
  by (cases a; cases b) auto

lemma strictly_increasing_last:
  assumes "strictly_increasing xs" and "2 \<le> length xs" and "v \<in> set xs"
  shows "fle v (last xs)"
proof -
  from assms(2) have ne: "xs \<noteq> []" by auto
  from assms(3) obtain i where i: "i < length xs" "v = xs ! i" by (auto simp: in_set_conv_nth)
  show ?thesis
  proof (cases "i = length xs - 1")
    case True
    from assms(2) have "length xs - 2 < length xs - 1" "length xs - 1 < length xs" by auto
    with assms(1) have "flt (xs ! (length xs - 2)) (xs ! (length xs - 1))"
      by (rule strictly_increasing_less)
    then have "fle (xs ! (length xs - 1)) (xs ! (length xs - 1))" using flt_fle by blast
    with True i ne show ?thesis by (simp add: last_conv_nth)
  next
    case False
    with i have "i < length xs - 1" "length xs - 1 < length xs" by auto
    with assms(1) have "flt (xs ! i) (xs ! (length xs - 1))"
      by (rule strictly_increasing_less)
    then have "fle (xs ! i) (xs ! (length xs - 1))" using flt_fle by blast
    with i ne show ?thesis by (simp add: last_conv_nth)
  qed
qed

text \<open>
  C6. For a strictly monotonic grid \<open>x\<close> of at least two points with values \<open>y\<close>, the
  interpolation does not fail, and at a query below the smallest or above the largest
  grid point its value is the continuation of the line through the two samples at that
  end of the grid, not the value at the end.
\<close>

theorem interp1d_extrapolates:
  assumes "strictly_increasing x \<or> strictly_decreasing x"
    and "2 \<le> length x" and "length y = length x"
  shows "\<exists>f. interp1d x y = Inr f
    \<and> (strictly_increasing x \<and> flt q (x ! 0) \<longrightarrow>
         f q = spec_line (x ! 0) (y ! 0) (x ! 1) (y ! 1) q)
    \<and> (strictly_increasing x \<and> flt (last x) q \<longrightarrow>
         f q = spec_line (x ! (length x - 2)) (y ! (length x - 2))
                 (x ! (length x - 1)) (y ! (length x - 1)) q)
    \<and> (strictly_decreasing x \<and> flt q (last x) \<longrightarrow>
         f q = spec_line (x ! (length x - 1)) (y ! (length x - 1))
                 (x ! (length x - 2)) (y ! (length x - 2)) q)
    \<and> (strictly_decreasing x \<and> flt (x ! 0) q \<longrightarrow>
         f q = spec_line (x ! 1) (y ! 1) (x ! 0) (y ! 0) q)"
proof (cases "strictly_increasing x")
  case True
  with assms(2) have nd: "\<not> strictly_decreasing x" by (simp add: not_both_monotonic)
  from True assms have f: "interp1d x y = Inr (linear_eval x y)"
    by (simp add: interp1d_def)
  show ?thesis
    using f nd True linear_eval_below[OF True assms(2), of q y]
      linear_eval_above[OF True assms(2), of q y]
    by auto
next
  case False
  with assms(1) have d: "strictly_decreasing x" by simp
  then have inc: "strictly_increasing (rev x)" by (rule strictly_decreasing_rev)
  from False d assms have f: "interp1d x y = Inr (linear_eval (rev x) (rev y))"
    by (simp add: interp1d_def)
  have len: "2 \<le> length (rev x)" using assms(2) by simp
  from assms(2) have ne: "x \<noteq> []" by auto
  have r0: "rev x ! 0 = last x" using ne by (simp add: rev_nth last_conv_nth)
  have l0: "last (rev x) = x ! 0" using ne by (simp add: last_rev hd_conv_nth)
  have n: "rev x ! 0 = x ! (length x - 1)" "rev x ! 1 = x ! (length x - 2)"
    "rev y ! 0 = y ! (length x - 1)" "rev y ! 1 = y ! (length x - 2)"
    "rev x ! (length x - 2) = x ! 1" "rev x ! (length x - 1) = x ! 0"
    "rev y ! (length x - 2) = y ! 1" "rev y ! (length x - 1) = y ! 0"
  proof -
    from assms(2,3) have p: "0 < length x" "1 < length x" "0 < length y" "1 < length y"
      "length x - 2 < length x" "length x - 1 < length x"
      "length x - 2 < length y" "length x - 1 < length y"
      "length x - Suc (length x - 2) = 1" "length x - Suc (length x - 1) = 0"
      by auto
    show "rev x ! 0 = x ! (length x - 1)" using rev_nth[OF p(1)] by simp
    show "rev x ! 1 = x ! (length x - 2)" using rev_nth[OF p(2)] by (simp add: numeral_2_eq_2)
    show "rev y ! 0 = y ! (length x - 1)" using rev_nth[OF p(3)] assms(3) by simp
    show "rev y ! 1 = y ! (length x - 2)" using rev_nth[OF p(4)] assms(3) by (simp add: numeral_2_eq_2)
    show "rev x ! (length x - 2) = x ! 1" using rev_nth[OF p(5)] p(9) by simp
    show "rev x ! (length x - 1) = x ! 0" using rev_nth[OF p(6)] p(10) by simp
    show "rev y ! (length x - 2) = y ! 1" using rev_nth[OF p(7)] p(9) assms(3) by simp
    show "rev y ! (length x - 1) = y ! 0" using rev_nth[OF p(8)] p(10) assms(3) by simp
  qed
  have below: "flt q (last x) \<Longrightarrow> linear_eval (rev x) (rev y) q =
      spec_line (x ! (length x - 1)) (y ! (length x - 1)) (x ! (length x - 2)) (y ! (length x - 2)) q"
    using linear_eval_below[OF inc len, of q "rev y"] r0 n by simp
  have above: "flt (x ! 0) q \<Longrightarrow> linear_eval (rev x) (rev y) q =
      spec_line (x ! 1) (y ! 1) (x ! 0) (y ! 0) q"
    using linear_eval_above[OF inc len, of q "rev y"] l0 n by simp
  show ?thesis
    using f False below above by auto
qed

text \<open>
  On the grid 1, 2, 3 with values 10, 20, 40, given in ascending or in descending order,
  the value at 0 is 0, not 10, and the value at 5 is 80, not 40.
\<close>

theorem interp1d_extrapolates_witness:
  "strictly_increasing [Fin 1, Fin 2, Fin 3] \<and> strictly_decreasing [Fin 3, Fin 2, Fin 1]
   \<and> (\<exists>f. interp1d [Fin 1, Fin 2, Fin 3] [Fin 10, Fin 20, Fin 40] = Inr f
          \<and> f (Fin 0) = Fin 0 \<and> f (Fin 5) = Fin 80)
   \<and> (\<exists>f. interp1d [Fin 3, Fin 2, Fin 1] [Fin 40, Fin 20, Fin 10] = Inr f
          \<and> f (Fin 0) = Fin 0 \<and> f (Fin 5) = Fin 80)"
proof -
  have i: "strictly_increasing [Fin 1, Fin 2, Fin 3]" by simp
  have d: "strictly_decreasing [Fin 3, Fin 2, Fin 1]" by simp
  have "\<exists>f. interp1d [Fin 1, Fin 2, Fin 3] [Fin 10, Fin 20, Fin 40] = Inr f
          \<and> f (Fin 0) = Fin 0 \<and> f (Fin 5) = Fin 80"
    using interp1d_extrapolates[OF disjI1[OF i], of "[Fin 10, Fin 20, Fin 40]" "Fin 0"]
      interp1d_extrapolates[OF disjI1[OF i], of "[Fin 10, Fin 20, Fin 40]" "Fin 5"]
    by (auto simp: spec_line_def fsub_def)
  moreover have "\<exists>f. interp1d [Fin 3, Fin 2, Fin 1] [Fin 40, Fin 20, Fin 10] = Inr f
          \<and> f (Fin 0) = Fin 0 \<and> f (Fin 5) = Fin 80"
    using interp1d_extrapolates[OF disjI2[OF d], of "[Fin 40, Fin 20, Fin 10]" "Fin 0"]
      interp1d_extrapolates[OF disjI2[OF d], of "[Fin 40, Fin 20, Fin 10]" "Fin 5"]
    by (auto simp: spec_line_def fsub_def)
  ultimately show ?thesis using i d by blast
qed

section \<open>Properties of the overlap residuals\<close>

lemma trim_loop_skip:
  "n \<le> 2 * ntrim \<Longrightarrow> trim_loop f0 f1 g0 g1 n ntrim ntrim s = Inr s"
  by (cases s) (simp add: trim_loop.simps)

lemma getitem_nat:
  "0 \<le> i \<Longrightarrow> i < int (length xs) \<Longrightarrow> getitem xs i = Inr (xs ! nat i)"
  by (simp add: getitem_def)

lemma take_drop_step:
  "k < m \<Longrightarrow> m \<le> length xs \<Longrightarrow>
   foldl f a (take (m - k) (drop k xs)) = foldl f (f a (xs ! k)) (take (m - Suc k) (drop (Suc k) xs))"
proof -
  assume a: "k < m" "m \<le> length xs"
  then have "drop k xs = xs ! k # drop (Suc k) xs"
    by (simp add: Cons_nth_drop_Suc)
  moreover from a have "m - k = Suc (m - Suc k)" by simp
  ultimately show ?thesis by simp
qed

lemma trim_loop_fold:
  "0 \<le> i \<Longrightarrow> 0 \<le> ntrim \<Longrightarrow> length f0 = nat n \<Longrightarrow> length f1 = nat n \<Longrightarrow>
   length g0 = nat n \<Longrightarrow> length g1 = nat n \<Longrightarrow>
   trim_loop f0 f1 g0 g1 n ntrim i (a, b, c, d) =
     Inr (foldl py_iadd a (take (nat (n - ntrim) - nat i) (drop (nat i) f0)),
          foldl py_iadd b (take (nat (n - ntrim) - nat i) (drop (nat i) f1)),
          foldl py_iadd c (take (nat (n - ntrim) - nat i) (drop (nat i) (map fsq g0))),
          foldl py_iadd d (take (nat (n - ntrim) - nat i) (drop (nat i) (map fsq g1))))"
proof (induction f0 f1 g0 g1 n ntrim i "(a, b, c, d)" arbitrary: a b c d rule: trim_loop.induct)
  case (1 f0 f1 g0 g1 n ntrim i a b c d)
  show ?case
  proof (cases "i < n - ntrim")
    case False
    then have "nat (n - ntrim) - nat i = 0" by simp
    with False show ?thesis by (simp add: trim_loop.simps)
  next
    case True
    with "1.prems" have inb: "0 \<le> i" "i < int (length f0)" "i < int (length f1)"
      "i < int (length g0)" "i < int (length g1)" by simp_all
    have k: "nat i < nat (n - ntrim)" using True "1.prems" by simp
    have m: "nat (n - ntrim) \<le> nat n" using "1.prems" by simp
    have s: "nat (i + 1) = Suc (nat i)" using "1.prems" by simp
    have g: "getitem f0 i = Inr (f0 ! nat i)" "getitem f1 i = Inr (f1 ! nat i)"
      "getitem g0 i = Inr (g0 ! nat i)" "getitem g1 i = Inr (g1 ! nat i)"
      using inb by (simp_all add: getitem_nat)
    have ih: "trim_loop f0 f1 g0 g1 n ntrim (i + 1)
        (py_iadd a (f0 ! nat i), py_iadd b (f1 ! nat i), py_iadd c (fsq (g0 ! nat i)), py_iadd d (fsq (g1 ! nat i))) =
      Inr (foldl py_iadd (py_iadd a (f0 ! nat i)) (take (nat (n - ntrim) - nat (i + 1)) (drop (nat (i + 1)) f0)),
          foldl py_iadd (py_iadd b (f1 ! nat i)) (take (nat (n - ntrim) - nat (i + 1)) (drop (nat (i + 1)) f1)),
          foldl py_iadd (py_iadd c (fsq (g0 ! nat i))) (take (nat (n - ntrim) - nat (i + 1)) (drop (nat (i + 1)) (map fsq g0))),
          foldl py_iadd (py_iadd d (fsq (g1 ! nat i))) (take (nat (n - ntrim) - nat (i + 1)) (drop (nat (i + 1)) (map fsq g1))))"
      using "1.hyps"[OF True g(1) g(2) g(3) g(4)] "1.prems" by simp
    have l0: "nat (n - ntrim) \<le> length f0" and l1: "nat (n - ntrim) \<le> length f1"
      and l2: "nat (n - ntrim) \<le> length (map fsq g0)"
      and l3: "nat (n - ntrim) \<le> length (map fsq g1)"
      using m "1.prems" by simp_all
    have n2: "map fsq g0 ! nat i = fsq (g0 ! nat i)" and n3: "map fsq g1 ! nat i = fsq (g1 ! nat i)"
      using inb by simp_all
    note e1 = take_drop_step[OF k l0, of py_iadd a]
    note e2 = take_drop_step[OF k l1, of py_iadd b]
    note e3 = take_drop_step[OF k l2, of py_iadd c, unfolded n2]
    note e4 = take_drop_step[OF k l3, of py_iadd d, unfolded n3]
    show ?thesis
      apply (subst trim_loop.simps)
      apply (simp only: True if_True g sum.case)
      apply (subst ih)
      apply (simp only: e1 e2 e3 e4 s)
      done
  qed
qed

lemma residcalc_loop_result:
  "residcalc_loop wl fl er ntrim k rs es = Inr (rs', es') \<Longrightarrow>
   length rs = length fl - 1 \<Longrightarrow> length es = length fl - 1 \<Longrightarrow>
   length rs' = length fl - 1 \<and> length es' = length fl - 1 \<and>
   (\<forall>j. k \<le> j \<and> j < length fl - 1 \<longrightarrow>
      (\<exists>s. pair_sums wl fl er ntrim j = Inr s \<and> rs' ! j = fst (resid_of_sums s)
           \<and> es' ! j = snd (resid_of_sums s))) \<and>
   (\<forall>j<k. rs' ! j = rs ! j \<and> es' ! j = es ! j)"
proof (induction wl fl er ntrim k rs es rule: residcalc_loop.induct)
  case (1 wl fl er ntrim order resids residerr)
  show ?case
  proof (cases "order < length fl - 1")
    case False
    with "1.prems" show ?thesis by (auto simp: residcalc_loop.simps)
  next
    case True
    from "1.prems"(1) True obtain s where s: "pair_sums wl fl er ntrim order = Inr s"
      and rec: "residcalc_loop wl fl er ntrim (order + 1)
               (resids[order := fst (resid_of_sums s)])
               (residerr[order := snd (resid_of_sums s)]) = Inr (rs', es')"
      by (subst (asm) residcalc_loop.simps) (auto split: sum.splits)
    from "1.IH"[OF True s rec] "1.prems"
    have ih: "length rs' = length fl - 1" "length es' = length fl - 1"
      "\<forall>j. order + 1 \<le> j \<and> j < length fl - 1 \<longrightarrow>
        (\<exists>s. pair_sums wl fl er ntrim j = Inr s \<and> rs' ! j = fst (resid_of_sums s)
           \<and> es' ! j = snd (resid_of_sums s))"
      "\<forall>j<order + 1. rs' ! j = (resids[order := fst (resid_of_sums s)]) ! j
          \<and> es' ! j = (residerr[order := snd (resid_of_sums s)]) ! j"
      by simp_all
    have here: "rs' ! order = fst (resid_of_sums s)" "es' ! order = snd (resid_of_sums s)"
      using ih(4) True "1.prems" by simp_all
    have later: "\<forall>j. order \<le> j \<and> j < length fl - 1 \<longrightarrow>
        (\<exists>s. pair_sums wl fl er ntrim j = Inr s \<and> rs' ! j = fst (resid_of_sums s)
           \<and> es' ! j = snd (resid_of_sums s))"
    proof (intro allI impI)
      fix j assume j: "order \<le> j \<and> j < length fl - 1"
      show "\<exists>s. pair_sums wl fl er ntrim j = Inr s \<and> rs' ! j = fst (resid_of_sums s)
           \<and> es' ! j = snd (resid_of_sums s)"
      proof (cases "j = order")
        case True
        with s here show ?thesis by simp
      next
        case False
        with j have "order + 1 \<le> j \<and> j < length fl - 1" by simp
        with ih(3) show ?thesis by blast
      qed
    qed
    have earlier: "\<forall>j<order. rs' ! j = resids ! j \<and> es' ! j = residerr ! j"
      using ih(4) by simp
    from ih(1,2) later earlier show ?thesis by blast
  qed
qed

lemma residcalc_pair:
  assumes "residcalc fd flux_arg err_arg ntrim = Inr (resids, residerr)"
  shows "length resids = length (flux_used fd flux_arg) - 1"
    and "length residerr = length (flux_used fd flux_arg) - 1"
    and "order < length resids \<Longrightarrow>
      \<exists>s. pair_sums (column wavelength fd) (flux_used fd flux_arg) (err_used fd err_arg) ntrim order = Inr s
        \<and> resids ! order = fst (resid_of_sums s) \<and> residerr ! order = snd (resid_of_sums s)"
proof -
  let ?fl = "flux_used fd flux_arg"
  from assms have loop: "residcalc_loop (column wavelength fd) ?fl (err_used fd err_arg) ntrim 0
      (replicate (length ?fl - 1) (Fin 0)) (replicate (length ?fl - 1) (Fin 0)) = Inr (resids, residerr)"
    by (simp add: residcalc_def Let_def split: if_splits)
  note r = residcalc_loop_result[OF loop]
  from r show "length resids = length ?fl - 1" by simp
  from r show "length residerr = length ?fl - 1" by simp
  assume "order < length resids"
  with r show "\<exists>s. pair_sums (column wavelength fd) ?fl (err_used fd err_arg) ntrim order = Inr s
        \<and> resids ! order = fst (resid_of_sums s) \<and> residerr ! order = snd (resid_of_sums s)"
    by simp
qed

lemma resid_of_sums_int_zero:
  "resid_of_sums (PyInt 0, PyInt 0, PyInt 0, PyInt 0) = (Fin 0, Fin 1)"
  by (simp add: resid_of_sums_def)

lemma take_indices_map:
  "take_indices xs is = Inr vs \<Longrightarrow> vs = map (\<lambda>i. xs ! i) is"
  by (induction "is" arbitrary: vs) (auto split: if_splits sum.splits)

lemma pair_sums_short:
  assumes "pair_sums wl fl er ntrim order = Inr s" and "overlap_of wl order = Inr overlap"
    and "int (length overlap) \<le> 2 * ntrim"
  shows "s = (PyInt 0, PyInt 0, PyInt 0, PyInt 0)"
  using assms by (auto simp: pair_sums_def trim_loop_skip split: sum.splits)

text \<open>
  C9. When the overlap index set of an adjacent pair has at most \<open>2 * ntrim\<close> pixels, the
  summation loop does not run whatever the four arrays hold, the four sums stay the
  integer zero, and \<open>residcalc\<close> returns residual 0 and residual error 1 for the pair.
\<close>

theorem short_overlap_fallback:
  assumes "residcalc fd flux_arg err_arg ntrim = Inr (resids, residerr)"
    and "order < length resids"
    and "overlap_of (column wavelength fd) order = Inr overlap"
    and "int (length overlap) \<le> 2 * ntrim"
  shows "trim_loop f0 f1 g0 g1 (int (length overlap)) ntrim ntrim (PyInt 0, PyInt 0, PyInt 0, PyInt 0)
           = Inr (PyInt 0, PyInt 0, PyInt 0, PyInt 0)
       \<and> pair_sums (column wavelength fd) (flux_used fd flux_arg) (err_used fd err_arg) ntrim order
           = Inr (PyInt 0, PyInt 0, PyInt 0, PyInt 0)
       \<and> resids ! order = Fin 0 \<and> residerr ! order = Fin 1"
proof -
  from residcalc_pair(3)[OF assms(1,2)] obtain s where
    s: "pair_sums (column wavelength fd) (flux_used fd flux_arg) (err_used fd err_arg) ntrim order = Inr s"
    and r: "resids ! order = fst (resid_of_sums s)" "residerr ! order = snd (resid_of_sums s)"
    by blast
  from pair_sums_short[OF s assms(3,4)] have z: "s = (PyInt 0, PyInt 0, PyInt 0, PyInt 0)" .
  show ?thesis
    using s r z trim_loop_skip[OF assms(4)] by (simp add: resid_of_sums_int_zero)
qed

lemma py_truediv_float:
  "to_float b \<noteq> Fin 0 \<Longrightarrow> py_truediv a b = Inr q \<Longrightarrow> to_float q = fdiv (to_float a) (to_float b)"
  by (cases a; cases b) (auto split: if_splits)

lemma py_truediv_square:
  "to_float b \<noteq> Fin 0 \<Longrightarrow> py_truediv a (py_square b) = Inr q \<Longrightarrow>
   to_float q = fdiv (to_float a) (fsq (to_float b))"
  by (cases a; cases b) (auto simp: fsq_def split: if_splits)

lemma py_truediv_defined:
  "to_float b \<noteq> Fin 0 \<Longrightarrow> \<exists>q. py_truediv a b = Inr q"
  by (cases a; cases b) auto

lemma py_truediv_square_defined:
  "to_float b \<noteq> Fin 0 \<Longrightarrow> \<exists>q. py_truediv a (py_square b) = Inr q"
  by (cases a; cases b) auto

lemma resid_of_sums_nonzero:
  assumes "to_float s0 \<noteq> Fin 0" and "to_float s1 \<noteq> Fin 0"
  shows "resid_of_sums (s0, s1, e0, e1) =
    (fsub (Fin 1) (fdiv (to_float s0) (to_float s1)),
     fmul (fabs (fsub (Fin 1) (fsub (Fin 1) (fdiv (to_float s0) (to_float s1)))))
       (fsqrt (fadd (fdiv (to_float e0) (fsq (to_float s0)))
                    (fdiv (to_float e1) (fsq (to_float s1))))))"
proof -
  from py_truediv_defined[OF assms(2)] obtain q where q: "py_truediv s0 s1 = Inr q" by blast
  from py_truediv_square_defined[OF assms(1)] obtain t0 where
    t0: "py_truediv e0 (py_square s0) = Inr t0" by blast
  from py_truediv_square_defined[OF assms(2)] obtain t1 where
    t1: "py_truediv e1 (py_square s1) = Inr t1" by blast
  show ?thesis
    using q t0 t1 py_truediv_float[OF assms(2) q] py_truediv_square[OF assms(1) t0]
      py_truediv_square[OF assms(2) t1]
    by (simp add: resid_of_sums_def Let_def)
qed

text \<open>
  C4. For an adjacent pair whose two trimmed flux sums are not zero, \<open>residcalc\<close>
  returns the residual \<open>1 - fluxsum0/fluxsum1\<close> and the residual error
  \<open>abs(1 - residual) * sqrt(errsum0/fluxsum0^2 + errsum1/fluxsum1^2)\<close>, the sums being those
  that the pair's loop accumulates.
\<close>

theorem residual_formula:
  assumes "residcalc fd flux_arg err_arg ntrim = Inr (resids, residerr)"
    and "order < length resids"
    and "pair_sums (column wavelength fd) (flux_used fd flux_arg) (err_used fd err_arg) ntrim order
           = Inr (fluxsum0, fluxsum1, errsum0, errsum1)"
    and "to_float fluxsum0 \<noteq> Fin 0" and "to_float fluxsum1 \<noteq> Fin 0"
  shows "resids ! order = fsub (Fin 1) (fdiv (to_float fluxsum0) (to_float fluxsum1))
       \<and> residerr ! order =
           fmul (fabs (fsub (Fin 1) (resids ! order)))
             (fsqrt (fadd (fdiv (to_float errsum0) (fsq (to_float fluxsum0)))
                          (fdiv (to_float errsum1) (fsq (to_float fluxsum1)))))"
proof -
  from residcalc_pair(3)[OF assms(1,2)] assms(3)
  have "resids ! order = fst (resid_of_sums (fluxsum0, fluxsum1, errsum0, errsum1))"
    and "residerr ! order = snd (resid_of_sums (fluxsum0, fluxsum1, errsum0, errsum1))"
    by auto
  then show ?thesis
    by (simp add: resid_of_sums_nonzero[OF assms(4,5)])
qed

lemma getitem_last: "xs \<noteq> [] \<Longrightarrow> getitem xs (- 1) = Inr (last xs)"
  by (cases xs rule: rev_cases) (simp_all add: getitem_def)

lemma interp1d_length: "interp1d x y = Inr f \<Longrightarrow> 2 \<le> length x \<and> length y = length x"
  by (auto simp: interp1d_def split: if_splits)

lemma row_Inr: "row xs i = Inr v \<Longrightarrow> i < length xs \<and> v = xs ! i"
  by (auto simp: row_def split: if_splits)

lemma trimmed_slice:
  "0 \<le> ntrim \<Longrightarrow>
   take (nat (int (length xs) - ntrim) - nat ntrim) (drop (nat ntrim) xs) = spec_trimmed (nat ntrim) xs"
proof -
  assume "0 \<le> ntrim"
  then have "nat (int (length xs) - ntrim) = length xs - nat ntrim" by simp
  then show ?thesis by (simp add: spec_trimmed_def drop_take)
qed

lemma spec_trimmed_map: "spec_trimmed k (map f xs) = map f (spec_trimmed k xs)"
  by (simp add: spec_trimmed_def take_map drop_map)

lemma sum_bindE:
  assumes "(case m of Inl e \<Rightarrow> Inl e | Inr v \<Rightarrow> k v) = Inr s"
  obtains v where "m = Inr v" and "k v = Inr s"
  using assms by (cases m) auto

lemma pair_sums_parts:
  assumes "pair_sums wl fl er ntrim order = Inr s"
  obtains f g where
    "interp1d (wl ! (order + 1)) (fl ! (order + 1)) = Inr f"
    "interp1d (wl ! (order + 1)) (er ! (order + 1)) = Inr g"
    "overlap_of wl order = Inr (spec_overlap (wl ! order) (wl ! (order + 1)))"
    "trim_loop (map (\<lambda>i. fl ! order ! i) (spec_overlap (wl ! order) (wl ! (order + 1))))
       (map f (map (\<lambda>i. wl ! order ! i) (spec_overlap (wl ! order) (wl ! (order + 1)))))
       (map (\<lambda>i. er ! order ! i) (spec_overlap (wl ! order) (wl ! (order + 1))))
       (map g (map (\<lambda>i. wl ! order ! i) (spec_overlap (wl ! order) (wl ! (order + 1)))))
       (int (length (spec_overlap (wl ! order) (wl ! (order + 1))))) ntrim ntrim
       (PyInt 0, PyInt 0, PyInt 0, PyInt 0) = Inr s"
proof -
  from assms obtain w1 fl1 f er1 g ov fl0 f0 w0 er0 g0 where
    p: "row wl (order + 1) = Inr w1" "row fl (order + 1) = Inr fl1" "interp1d w1 fl1 = Inr f"
      "row er (order + 1) = Inr er1" "interp1d w1 er1 = Inr g" "overlap_of wl order = Inr ov"
      "row fl order = Inr fl0" "take_indices fl0 ov = Inr f0"
      "take_indices (wl ! order) ov = Inr w0" "row er order = Inr er0"
      "take_indices er0 ov = Inr g0"
      "trim_loop f0 (map f w0) g0 (map g w0) (int (length ov)) ntrim ntrim
         (PyInt 0, PyInt 0, PyInt 0, PyInt 0) = Inr s"
    unfolding pair_sums_def by (elim sum_bindE) blast
  note w1 = row_Inr[OF p(1)] and fl1 = row_Inr[OF p(2)] and er1 = row_Inr[OF p(4)]
    and fl0 = row_Inr[OF p(7)] and er0 = row_Inr[OF p(10)]
  from interp1d_length[OF p(3)] have "w1 \<noteq> []" by auto
  then have l: "getitem w1 (- 1) = Inr (last w1)" by (rule getitem_last)
  have r0: "row wl order = Inr (wl ! order)" and r1: "row wl (order + 1) = Inr w1"
    using w1 by (simp_all add: row_def)
  have "overlap_of wl order = Inr (where_le (wl ! order) (last w1))"
    using r0 r1 l by (simp add: overlap_of_def)
  with p(6) have ov: "ov = spec_overlap (wl ! order) (wl ! (order + 1))"
    using w1 by (simp add: where_le_def spec_overlap_def)
  have e: "w1 = wl ! (order + 1)" "fl1 = fl ! (order + 1)" "er1 = er ! (order + 1)"
    "fl0 = fl ! order" "er0 = er ! order"
    using w1 fl1 er1 fl0 er0 by simp_all
  note m = take_indices_map[OF p(8)] take_indices_map[OF p(9)] take_indices_map[OF p(11)]
  show ?thesis
    using that[of f g] p(3,5,6,12) unfolding m e ov by simp
qed

text \<open>
  C5. For an adjacent pair that \<open>residcalc\<close> can sum, with \<open>ntrim\<close> not negative, the
  overlap index set is exactly the pixels of the order whose wavelength is at most the
  last wavelength of the next order, which is its largest when that order is ascending,
  and the four sums accumulate, in order, the flux of the order, the resampled flux of the
  next order and the squares of the two errors over exactly the overlap pixels without the
  first \<open>ntrim\<close> and the last \<open>ntrim\<close> of them.
\<close>

theorem overlap_and_trimmed_sums:
  assumes "0 \<le> ntrim" and "pair_sums wl fl er ntrim order = Inr s"
  shows "\<exists>f g. interp1d (wl ! (order + 1)) (fl ! (order + 1)) = Inr f
     \<and> interp1d (wl ! (order + 1)) (er ! (order + 1)) = Inr g
     \<and> overlap_of wl order = Inr (spec_overlap (wl ! order) (wl ! (order + 1)))
     \<and> (strictly_increasing (wl ! (order + 1)) \<longrightarrow>
          (\<forall>v\<in>set (wl ! (order + 1)). fle v (last (wl ! (order + 1)))))
     \<and> s = (foldl py_iadd (PyInt 0) (map (\<lambda>i. fl ! order ! i)
                (spec_trimmed (nat ntrim) (spec_overlap (wl ! order) (wl ! (order + 1))))),
             foldl py_iadd (PyInt 0) (map (\<lambda>i. f (wl ! order ! i))
                (spec_trimmed (nat ntrim) (spec_overlap (wl ! order) (wl ! (order + 1))))),
             foldl py_iadd (PyInt 0) (map (\<lambda>i. fsq (er ! order ! i))
                (spec_trimmed (nat ntrim) (spec_overlap (wl ! order) (wl ! (order + 1))))),
             foldl py_iadd (PyInt 0) (map (\<lambda>i. fsq (g (wl ! order ! i)))
                (spec_trimmed (nat ntrim) (spec_overlap (wl ! order) (wl ! (order + 1))))))"
proof -
  let ?ov = "spec_overlap (wl ! order) (wl ! (order + 1))"
  from assms(2) obtain f g where
    i: "interp1d (wl ! (order + 1)) (fl ! (order + 1)) = Inr f"
       "interp1d (wl ! (order + 1)) (er ! (order + 1)) = Inr g"
       "overlap_of wl order = Inr ?ov"
    and t: "trim_loop (map (\<lambda>i. fl ! order ! i) ?ov) (map f (map (\<lambda>i. wl ! order ! i) ?ov))
       (map (\<lambda>i. er ! order ! i) ?ov) (map g (map (\<lambda>i. wl ! order ! i) ?ov))
       (int (length ?ov)) ntrim ntrim (PyInt 0, PyInt 0, PyInt 0, PyInt 0) = Inr s"
    by (rule pair_sums_parts)
  have z: "(0::int) \<le> ntrim" by (rule assms(1))
  note fold = trim_loop_fold[OF z z, of "map (\<lambda>i. fl ! order ! i) ?ov" "int (length ?ov)"
      "map f (map (\<lambda>i. wl ! order ! i) ?ov)" "map (\<lambda>i. er ! order ! i) ?ov"
      "map g (map (\<lambda>i. wl ! order ! i) ?ov)" "PyInt 0" "PyInt 0" "PyInt 0" "PyInt 0"]
  have s: "s = (foldl py_iadd (PyInt 0) (take (nat (int (length ?ov) - ntrim) - nat ntrim)
                  (drop (nat ntrim) (map (\<lambda>i. fl ! order ! i) ?ov))),
                foldl py_iadd (PyInt 0) (take (nat (int (length ?ov) - ntrim) - nat ntrim)
                  (drop (nat ntrim) (map f (map (\<lambda>i. wl ! order ! i) ?ov)))),
                foldl py_iadd (PyInt 0) (take (nat (int (length ?ov) - ntrim) - nat ntrim)
                  (drop (nat ntrim) (map fsq (map (\<lambda>i. er ! order ! i) ?ov)))),
                foldl py_iadd (PyInt 0) (take (nat (int (length ?ov) - ntrim) - nat ntrim)
                  (drop (nat ntrim) (map fsq (map g (map (\<lambda>i. wl ! order ! i) ?ov))))))"
    using t fold by simp
  have a: "take (nat (int (length ?ov) - ntrim) - nat ntrim)
             (drop (nat ntrim) (map h ?ov)) = map h (spec_trimmed (nat ntrim) ?ov)" for h :: "nat \<Rightarrow> npfloat"
    using trimmed_slice[OF z, of "map h ?ov"] by (simp add: spec_trimmed_map)
  have s': "s = (foldl py_iadd (PyInt 0) (map (\<lambda>i. fl ! order ! i) (spec_trimmed (nat ntrim) ?ov)),
             foldl py_iadd (PyInt 0) (map (\<lambda>i. f (wl ! order ! i)) (spec_trimmed (nat ntrim) ?ov)),
             foldl py_iadd (PyInt 0) (map (\<lambda>i. fsq (er ! order ! i)) (spec_trimmed (nat ntrim) ?ov)),
             foldl py_iadd (PyInt 0) (map (\<lambda>i. fsq (g (wl ! order ! i))) (spec_trimmed (nat ntrim) ?ov)))"
    using s a[of "\<lambda>i. fl ! order ! i"] a[of "\<lambda>i. f (wl ! order ! i)"]
      a[of "\<lambda>i. fsq (er ! order ! i)"] a[of "\<lambda>i. fsq (g (wl ! order ! i))"]
    by (simp add: comp_def)
  from interp1d_length[OF i(1)] have "2 \<le> length (wl ! (order + 1))" by simp
  then have mx: "strictly_increasing (wl ! (order + 1)) \<longrightarrow>
      (\<forall>v\<in>set (wl ! (order + 1)). fle v (last (wl ! (order + 1))))"
    using strictly_increasing_last by blast
  from i s' mx show ?thesis by blast
qed

lemma residcalc_two_orders:
  assumes "length (flux_used fd flux_arg) = 2"
  shows "residcalc fd flux_arg err_arg ntrim =
    (case pair_sums (column wavelength fd) (flux_used fd flux_arg) (err_used fd err_arg) ntrim 0 of
       Inl e \<Rightarrow> Inl e
     | Inr s \<Rightarrow> Inr ([fst (resid_of_sums s)], [snd (resid_of_sums s)]))"
proof -
  have r: "replicate (length (flux_used fd flux_arg) - 1) (Fin 0) = [Fin 0]"
    using assms by simp
  show ?thesis
    unfolding residcalc_def Let_def r
    by (subst residcalc_loop.simps, subst residcalc_loop.simps)
       (simp add: assms split: sum.splits)
qed

lemma short_len: "length (flux_used short_exposure None) = 2"
  by (simp add: flux_used_def column_def short_exposure_def)

lemma dark_len: "length (flux_used dark_exposure None) = 2"
  by (simp add: flux_used_def column_def dark_exposure_def)

lemma dark_sums: "pair_sums (column wavelength dark_exposure) (flux_used dark_exposure None)
     (err_used dark_exposure None) 5 0 = Inr (Float (Fin 0), Float (Fin 0), Float (Fin 0), Float (Fin 0))"
  by code_simp

lemma resid_of_float_zeros:
  "resid_of_sums (Float (Fin 0), Float (Fin 0), Float (Fin 0), Float (Fin 0)) = (NaN, NaN)"
  by (simp add: resid_of_sums_def inf_of_sign_def fsub_def fsq_def)

text \<open>
  C1. Two orders of eleven pixels with zero flux everywhere and the default \<open>ntrim = 5\<close>:
  the loop runs once, the sums are the floating-point zero, the division raises nothing,
  and the residual and its error are NaN, not the fallback 0 and 1.
\<close>

theorem residcalc_zero_flux_not_fallback:
  "pair_sums (column wavelength dark_exposure) (flux_used dark_exposure None)
     (err_used dark_exposure None) 5 0 = Inr (Float (Fin 0), Float (Fin 0), Float (Fin 0), Float (Fin 0))
   \<and> residcalc dark_exposure None None 5 = Inr ([NaN], [NaN])"
  by (simp add: residcalc_two_orders[OF dark_len] dark_sums resid_of_float_zeros)

lemma short5s: "pair_sums (column wavelength short_exposure) (flux_used short_exposure None)
     (err_used short_exposure None) 5 0 = Inr (PyInt 0, PyInt 0, PyInt 0, PyInt 0)"
  by code_simp

lemma short5: "residcalc short_exposure None None 5 = Inr ([Fin 0], [Fin 1])"
  by (simp add: residcalc_two_orders[OF short_len] short5s resid_of_sums_int_zero)

lemma short0s: "pair_sums (column wavelength short_exposure) (flux_used short_exposure None)
     (err_used short_exposure None) 0 0 = Inr (Float (Fin 3), Float (Fin 6), Float (Fin 9), Float (Fin 0))"
  by code_simp

lemma short0: "residcalc short_exposure None None 0 = Inr ([Fin (1/2)], [Fin (1/2)])"
  by (simp add: residcalc_two_orders[OF short_len] short0s resid_of_sums_def fsub_def fsq_def Let_def)

lemma short_ov: "overlap_of (column wavelength short_exposure) 0 = Inr [0, 1, 2]"
  by code_simp

text \<open>The hypotheses of C9 hold for the three-pixel exposure and the default \<open>ntrim\<close>.\<close>

theorem short_overlap_fallback_witness:
  "residcalc short_exposure None None 5 = Inr ([Fin 0], [Fin 1])
   \<and> overlap_of (column wavelength short_exposure) 0 = Inr [0, 1, 2]
   \<and> column flux short_exposure = [[Fin 1, Fin 1, Fin 1], [Fin 2, Fin 2, Fin 2]]
   \<and> trim_loop [Fin 1, Fin 1, Fin 1] [Fin 2, Fin 2, Fin 2] [Fin 3, Fin 0, Fin 0] [Fin 0, Fin 0, Fin 0]
        3 5 5 (PyInt 0, PyInt 0, PyInt 0, PyInt 0) = Inr (PyInt 0, PyInt 0, PyInt 0, PyInt 0)
   \<and> pair_sums (column wavelength short_exposure) (flux_used short_exposure None)
        (err_used short_exposure None) 5 0 = Inr (PyInt 0, PyInt 0, PyInt 0, PyInt 0)"
  using short_overlap_fallback[OF short5 _ short_ov, where ?f0.0 = "[Fin 1, Fin 1, Fin 1]"
     and ?f1.0 = "[Fin 2, Fin 2, Fin 2]" and ?g0.0 = "[Fin 3, Fin 0, Fin 0]"
     and ?g1.0 = "[Fin 0, Fin 0, Fin 0]"] short5 short_ov
  by (simp add: short_exposure_def column_def mk_row_def)

text \<open>The hypotheses of C4 hold for the three-pixel exposure without trimming.\<close>

theorem residual_formula_witness:
  "residcalc short_exposure None None 0 = Inr ([Fin (1/2)], [Fin (1/2)])
   \<and> pair_sums (column wavelength short_exposure) (flux_used short_exposure None)
     (err_used short_exposure None) 0 0 = Inr (Float (Fin 3), Float (Fin 6), Float (Fin 9), Float (Fin 0))
   \<and> Fin (1/2) = fsub (Fin 1) (fdiv (Fin 3) (Fin 6))
   \<and> Fin (1/2) = fmul (fabs (fsub (Fin 1) (Fin (1/2))))
             (fsqrt (fadd (fdiv (Fin 9) (fsq (Fin 3))) (fdiv (Fin 0) (fsq (Fin 6)))))"
  using residual_formula[OF short0 _ short0s] short0 short0s
  by (simp add: fsq_def fsub_def)

text \<open>The hypotheses of C5 hold for the three-pixel exposure with \<open>ntrim = 1\<close>.\<close>

theorem overlap_and_trimmed_sums_witness:
  "pair_sums (column wavelength short_exposure) (column flux short_exposure)
     (column error short_exposure) 1 0 = Inr (Float (Fin 1), Float (Fin 2), Float (Fin 0), Float (Fin 0))
   \<and> spec_overlap (column wavelength short_exposure ! 0) (column wavelength short_exposure ! 1) = [0, 1, 2]
   \<and> spec_trimmed 1 [0, 1, 2 :: nat] = [1]
   \<and> column wavelength short_exposure ! 1 = [Fin 2, Fin 3, Fin 4]
   \<and> strictly_increasing [Fin 2, Fin 3, Fin 4]
   \<and> fle (Fin 3) (last [Fin 2, Fin 3, Fin 4])"
proof -
  have w: "column wavelength short_exposure ! 1 = [Fin 2, Fin 3, Fin 4]"
    "column wavelength short_exposure ! (0 + 1) = [Fin 2, Fin 3, Fin 4]"
    by (simp_all add: column_def short_exposure_def mk_row_def)
  have u: "strictly_increasing [Fin 2, Fin 3, Fin 4]" by simp
  have p: "pair_sums (column wavelength short_exposure) (column flux short_exposure)
     (column error short_exposure) 1 0 = Inr (Float (Fin 1), Float (Fin 2), Float (Fin 0), Float (Fin 0))"
    by code_simp
  have o: "spec_overlap (column wavelength short_exposure ! 0) (column wavelength short_exposure ! 1) = [0, 1, 2]"
    by code_simp
  have t: "spec_trimmed 1 [0, 1, 2 :: nat] = [1]"
    by code_simp
  have z: "(0::int) \<le> 1" by simp
  from overlap_and_trimmed_sums[OF z p] p o t w u show ?thesis
    by auto
qed

section \<open>Properties of the solver driver\<close>

lemma findshift_Inr:
  assumes "findshift minimize fd guess iterate = Inr res"
  obtains mn ea eb where
    "minimize (\<lambda>p. residfunc p [0..<length fd] fd) (start_params guess iterate) = Inr mn"
    "stderr (par_a mn) = Some ea" "stderr (par_b mn) = Some eb"
    "res = (linear_shift (pvalue (par_a mn)) (pvalue (par_b mn)) [0..<length fd],
            map (\<lambda>k. fsqrt (fadd (fsq ea) (fsq (fmul (Fin (real k)) eb)))) [0..<length fd],
            ((pvalue (par_a mn), Some ea), (pvalue (par_b mn), Some eb)))"
proof (cases "minimize (\<lambda>p. residfunc p [0..<length fd] fd) (start_params guess iterate)")
  case (Inl e)
  with assms show ?thesis by (simp add: findshift_def)
next
  case (Inr mn)
  show ?thesis
  proof (cases "stderr (par_a mn)")
    case None
    with assms Inr show ?thesis by (simp add: findshift_def)
  next
    case a: (Some ea)
    show ?thesis
    proof (cases "stderr (par_b mn)")
      case None
      with assms Inr a show ?thesis by (simp add: findshift_def)
    next
      case b: (Some eb)
      from assms Inr a b have
        "res = (linear_shift (pvalue (par_a mn)) (pvalue (par_b mn)) [0..<length fd],
            map (\<lambda>k. fsqrt (fadd (fsq ea) (fsq (fmul (Fin (real k)) eb)))) [0..<length fd],
            ((pvalue (par_a mn), Some ea), (pvalue (par_b mn), Some eb)))"
        by (simp add: findshift_def Let_def)
      with Inr a b show ?thesis by (rule that)
    qed
  qed
qed

text \<open>
  C3. With \<open>iterate\<close> false both parameters come back from the fit at the guess with
  their standard errors still \<open>None\<close>, and line 251 squares \<open>None\<close>: \<open>findshift\<close> raises
  \<open>TypeError\<close> and returns neither the guess nor the pixel shift.
\<close>

theorem fixed_guess_raises:
  "held_fit (\<lambda>p. residfunc p [0..<length short_exposure] short_exposure)
       (start_params (Fin 1, Fin (1 / 2)) False) =
     Inr \<lparr>par_a = \<lparr>pvalue = Fin 1, vary = False, stderr = None\<rparr>,
          par_b = \<lparr>pvalue = Fin (1 / 2), vary = False, stderr = None\<rparr>\<rparr>
   \<and> findshift held_fit short_exposure (Fin 1, Fin (1 / 2)) False = Inl TypeError"
  by (simp add: findshift_def start_params_def held_fit_def)

text \<open>
  C8. Whatever \<open>findshift\<close> returns, both standard errors are numbers and the pixel
  shift error at every relative order is \<open>sqrt(stderr(a)^2 + (order * stderr(b))^2)\<close>.
\<close>

theorem pixerr_formula:
  assumes "findshift minimize fd guess iterate = Inr (pixshift, pixerr, ((a, sa), (b, sb)))"
  shows "\<exists>ea eb. sa = Some ea \<and> sb = Some eb \<and> length pixerr = length fd
     \<and> (\<forall>order<length fd.
           pixerr ! order = fsqrt (fadd (fsq ea) (fsq (fmul (Fin (real order)) eb))))"
proof -
  from assms obtain mn ea eb where
    "minimize (\<lambda>p. residfunc p [0..<length fd] fd) (start_params guess iterate) = Inr mn"
    "stderr (par_a mn) = Some ea" "stderr (par_b mn) = Some eb"
    "(pixshift, pixerr, ((a, sa), (b, sb))) =
       (linear_shift (pvalue (par_a mn)) (pvalue (par_b mn)) [0..<length fd],
        map (\<lambda>k. fsqrt (fadd (fsq ea) (fsq (fmul (Fin (real k)) eb)))) [0..<length fd],
        ((pvalue (par_a mn), Some ea), (pvalue (par_b mn), Some eb)))"
    by (rule findshift_Inr)
  then have "sa = Some ea" "sb = Some eb"
    and p: "pixerr = map (\<lambda>k. fsqrt (fadd (fsq ea) (fsq (fmul (Fin (real k)) eb)))) [0..<length fd]"
    by simp_all
  moreover from p have "length pixerr = length fd" by simp
  moreover from p have "\<forall>order<length fd.
      pixerr ! order = fsqrt (fadd (fsq ea) (fsq (fmul (Fin (real order)) eb)))"
    by simp
  ultimately show ?thesis by blast
qed

lemma sqrt25: "sqrt 25 = 5"
proof -
  have "sqrt 25 = (5::real)" by (rule real_sqrt_unique) simp_all
  then show ?thesis .
qed

lemma still_shift:
  "findshift still_fit short_exposure (Fin 1, Fin (1/2)) True =
     Inr ([Fin 1, Fin (3/2)], [Fin 3, Fin 5], ((Fin 1, Some (Fin 3)), (Fin (1/2), Some (Fin 4))))"
proof -
  have l: "[0..<length short_exposure] = [0, 1]"
    by (simp add: short_exposure_def upt_rec)
  have s: "sqrt 9 = 3"
    by (rule real_sqrt_unique) simp_all
  show ?thesis
    by (simp add: findshift_def start_params_def l Let_def still_fit_def linear_shift_def fsq_def sqrt25 s)
qed

text \<open>\<open>findshift\<close> returns for the example minimizer, with the errors 3 and 5.\<close>

theorem pixerr_formula_witness:
  "findshift still_fit short_exposure (Fin 1, Fin (1/2)) True =
     Inr ([Fin 1, Fin (3/2)], [Fin 3, Fin 5], ((Fin 1, Some (Fin 3)), (Fin (1/2), Some (Fin 4))))
   \<and> length [Fin 3, Fin 5] = length short_exposure
   \<and> [Fin 3, Fin 5] ! 1 = fsqrt (fadd (fsq (Fin 3)) (fsq (fmul (Fin (real (1::nat))) (Fin 4))))"
proof -
  from pixerr_formula[OF still_shift] have
    "length [Fin 3, Fin 5 :: npfloat] = length short_exposure
      \<and> (\<forall>order<length short_exposure.
           [Fin 3, Fin 5] ! order = fsqrt (fadd (fsq (Fin 3)) (fsq (fmul (Fin (real order)) (Fin 4)))))"
    by simp
  moreover have "1 < length short_exposure" by (simp add: short_exposure_def)
  ultimately show ?thesis using still_shift by blast
qed

section \<open>Properties of the flux recomputation\<close>

lemma shift_loop_frame:
  "shift_loop m ob nb px ps n k = Inr m' \<Longrightarrow>
   length m' = length m \<and> (\<forall>a. a \<noteq> nb \<longrightarrow> m' ! a = m ! a)
     \<and> length (m' ! nb) = length (m ! nb)"
proof (induction m ob nb px ps n k rule: shift_loop.induct)
  case (1 m ob nb px ps n order)
  show ?case
  proof (cases "order < n")
    case False
    with "1.prems" show ?thesis by (simp add: shift_loop.simps)
  next
    case True
    from "1.prems" True obtain f sh where
      f: "interp1d px (m ! ob ! order) = Inr f" and sh: "row ps order = Inr sh"
      and rec: "shift_loop (m[nb := (m ! nb)[order := map (\<lambda>p. f (fsub p sh)) px]])
                  ob nb px ps n (order + 1) = Inr m'"
      by (subst (asm) shift_loop.simps) (auto split: sum.splits)
    from "1.IH"[OF True f sh rec] show ?thesis
      by (cases "nb < length m") (auto simp: list_update_beyond)
  qed
qed

lemma shift_loop_rows:
  "shift_loop m ob nb px ps n k = Inr m' \<Longrightarrow> ob \<noteq> nb \<Longrightarrow> nb < length m \<Longrightarrow>
   n \<le> length (m ! nb) \<Longrightarrow>
   (\<forall>j. k \<le> j \<and> j < n \<longrightarrow>
      (\<exists>f. interp1d px (m ! ob ! j) = Inr f \<and> j < length ps
         \<and> m' ! nb ! j = map (\<lambda>p. f (fsub p (ps ! j))) px))
   \<and> (\<forall>j<k. m' ! nb ! j = m ! nb ! j)"
proof (induction m ob nb px ps n k rule: shift_loop.induct)
  case (1 m ob nb px ps n order)
  show ?case
  proof (cases "order < n")
    case False
    with "1.prems" show ?thesis by (auto simp: shift_loop.simps)
  next
    case True
    from "1.prems"(1) True obtain f sh where
      f: "interp1d px (m ! ob ! order) = Inr f" and sh: "row ps order = Inr sh"
      and rec: "shift_loop (m[nb := (m ! nb)[order := map (\<lambda>p. f (fsub p sh)) px]])
                  ob nb px ps n (order + 1) = Inr m'"
      by (subst (asm) shift_loop.simps) (auto split: sum.splits)
    let ?m1 = "m[nb := (m ! nb)[order := map (\<lambda>p. f (fsub p sh)) px]]"
    from row_Inr[OF sh] have shv: "order < length ps" "sh = ps ! order" by simp_all
    have ob1: "?m1 ! ob = m ! ob" using "1.prems"(2) by simp
    have nb1: "?m1 ! nb = (m ! nb)[order := map (\<lambda>p. f (fsub p sh)) px]"
      using "1.prems"(3) by simp
    have pre: "nb < length ?m1" "n \<le> length (?m1 ! nb)"
      using "1.prems"(3,4) by simp_all
    note ih = "1.IH"[OF True f sh rec "1.prems"(2) pre, unfolded ob1 nb1]
    from ih have ih1: "\<forall>j. order + 1 \<le> j \<and> j < n \<longrightarrow>
        (\<exists>f. interp1d px (m ! ob ! j) = Inr f \<and> j < length ps
           \<and> m' ! nb ! j = map (\<lambda>p. f (fsub p (ps ! j))) px)"
      by (rule conjunct1)
    from ih have ih2: "\<forall>j<order + 1.
        m' ! nb ! j = (m ! nb)[order := map (\<lambda>p. f (fsub p sh)) px] ! j"
      by (rule conjunct2)
    have ol: "order < length (m ! nb)" using True "1.prems"(4) by simp
    from ih2 have "m' ! nb ! order = (m ! nb)[order := map (\<lambda>p. f (fsub p sh)) px] ! order"
      by simp
    also have "\<dots> = map (\<lambda>p. f (fsub p sh)) px"
      using ol by simp
    finally have here: "m' ! nb ! order = map (\<lambda>p. f (fsub p (ps ! order))) px"
      using shv by simp
    have later: "\<forall>j. order \<le> j \<and> j < n \<longrightarrow>
        (\<exists>f. interp1d px (m ! ob ! j) = Inr f \<and> j < length ps
           \<and> m' ! nb ! j = map (\<lambda>p. f (fsub p (ps ! j))) px)"
    proof (intro allI impI)
      fix j assume j: "order \<le> j \<and> j < n"
      show "\<exists>f. interp1d px (m ! ob ! j) = Inr f \<and> j < length ps
           \<and> m' ! nb ! j = map (\<lambda>p. f (fsub p (ps ! j))) px"
      proof (cases "j = order")
        case True
        with f shv here show ?thesis by blast
      next
        case False
        with j have "order + 1 \<le> j \<and> j < n" by simp
        with ih1 show ?thesis by blast
      qed
    qed
    have earlier: "\<forall>j<order. m' ! nb ! j = m ! nb ! j"
    proof (intro allI impI)
      fix j assume j: "j < order"
      with ih2 have "m' ! nb ! j = (m ! nb)[order := map (\<lambda>p. f (fsub p sh)) px] ! j"
        by simp
      with j show "m' ! nb ! j = m ! nb ! j" by simp
    qed
    from later earlier show ?thesis by blast
  qed
qed

lemma np_divide_Inr:
  "np_divide a b = Inr c \<Longrightarrow> map length a = map length b \<and> c = map2 (map2 fdiv) a b"
  by (auto simp: np_divide_def split: if_splits)

lemma map2_shape:
  "map length a = map length b \<Longrightarrow> map length (map2 (map2 f) a b) = map length a"
proof (induction a arbitrary: b)
  case Nil
  then show ?case by simp
next
  case (Cons r a)
  then obtain s b' where b: "b = s # b'" by (cases b) auto
  with Cons show ?case by simp
qed

lemma fluxcorrect_mem_parts:
  assumes "fluxcorrect_mem m fd pixshift = Inr (m', newflux, newerr)"
  obtains quot m3 q1 q2 where
    "np_divide (m ! net_at fd) (m ! flux_at fd) = Inr quot"
    "shift_loop (m @ [quot, replicate (length quot) (replicate (pixel_count quot) (Fin 0))])
       (length m) (Suc (length m)) (map (\<lambda>k. Fin (real k)) [0..<pixel_count quot]) pixshift
       (length quot) 0 = Inr m3"
    "np_divide (m3 ! net_at fd) (m3 ! Suc (length m)) = Inr q1"
    "np_divide ((m3 @ [q1]) ! net_error_at fd) ((m3 @ [q1]) ! Suc (length m)) = Inr q2"
    "m' = m3 @ [q1, q2]" "newflux = length m3" "newerr = Suc (length m3)"
proof -
  from assms obtain quot where
    q: "np_divide (m ! net_at fd) (m ! flux_at fd) = Inr quot"
    by (cases "np_divide (m ! net_at fd) (m ! flux_at fd)") (simp_all add: fluxcorrect_mem_def)
  let ?m2 = "m @ [quot, replicate (length quot) (replicate (pixel_count quot) (Fin 0))]"
  let ?px = "map (\<lambda>k. Fin (real k)) [0..<pixel_count quot]"
  from assms q obtain m3 where
    l: "shift_loop ?m2 (length m) (Suc (length m)) ?px pixshift (length quot) 0 = Inr m3"
    by (cases "shift_loop ?m2 (length m) (Suc (length m)) ?px pixshift (length quot) 0")
       (simp_all add: fluxcorrect_mem_def alloc_def Let_def)
  from assms q l obtain q1 where
    q1: "np_divide (m3 ! net_at fd) (m3 ! Suc (length m)) = Inr q1"
    by (cases "np_divide (m3 ! net_at fd) (m3 ! Suc (length m))")
       (simp_all add: fluxcorrect_mem_def alloc_def Let_def)
  from assms q l q1 obtain q2 where
    q2: "np_divide ((m3 @ [q1]) ! net_error_at fd) ((m3 @ [q1]) ! Suc (length m)) = Inr q2"
    by (cases "np_divide ((m3 @ [q1]) ! net_error_at fd) ((m3 @ [q1]) ! Suc (length m))")
       (simp_all add: fluxcorrect_mem_def alloc_def Let_def)
  from assms q l q1 q2 have "m' = m3 @ [q1, q2]" "newflux = length m3" "newerr = Suc (length m3)"
    by (simp_all add: fluxcorrect_mem_def alloc_def Let_def)
  with q l q1 q2 show ?thesis by (rule that)
qed

lemma fluxcorrect_mem_frame:
  assumes "fluxcorrect_mem m fd pixshift = Inr (m', newflux, newerr)"
    and "net_at fd < length m" and "flux_at fd < length m" and "net_error_at fd < length m"
  shows "(\<forall>a<length m. m' ! a = m ! a)
    \<and> length m \<le> newflux \<and> newflux < length m' \<and> length m \<le> newerr \<and> newerr < length m'
    \<and> map length (m' ! newflux) = map length (m ! net_at fd)
    \<and> map length (m' ! newerr) = map length (m ! net_at fd)
    \<and> map length (m ! flux_at fd) = map length (m ! net_at fd)"
proof -
  from assms(1) obtain quot m3 q1 q2 where
    q: "np_divide (m ! net_at fd) (m ! flux_at fd) = Inr quot"
    and l: "shift_loop (m @ [quot, replicate (length quot) (replicate (pixel_count quot) (Fin 0))])
       (length m) (Suc (length m)) (map (\<lambda>k. Fin (real k)) [0..<pixel_count quot]) pixshift
       (length quot) 0 = Inr m3"
    and q1: "np_divide (m3 ! net_at fd) (m3 ! Suc (length m)) = Inr q1"
    and q2: "np_divide ((m3 @ [q1]) ! net_error_at fd) ((m3 @ [q1]) ! Suc (length m)) = Inr q2"
    and r: "m' = m3 @ [q1, q2]" "newflux = length m3" "newerr = Suc (length m3)"
    by (rule fluxcorrect_mem_parts)
  let ?m2 = "m @ [quot, replicate (length quot) (replicate (pixel_count quot) (Fin 0))]"
  from shift_loop_frame[OF l] have len3: "length m3 = length m + 2"
    and same: "\<forall>a. a \<noteq> Suc (length m) \<longrightarrow> m3 ! a = ?m2 ! a"
    by simp_all
  have old3: "m3 ! a = m ! a" if "a < length m" for a
    using same that by (simp add: nth_append)
  have old: "\<forall>a<length m. m' ! a = m ! a"
    using old3 len3 r(1) by (simp add: nth_append)
  have n3: "m3 ! net_at fd = m ! net_at fd" using old3 assms(2) by simp
  have e3: "(m3 @ [q1]) ! net_error_at fd = m ! net_error_at fd"
    using old3 assms(4) len3 by (simp add: nth_append)
  have b3: "(m3 @ [q1]) ! Suc (length m) = m3 ! Suc (length m)"
    using len3 by (simp add: nth_append)
  note d1 = np_divide_Inr[OF q1, unfolded n3]
  note d2 = np_divide_Inr[OF q2, unfolded e3 b3]
  note d0 = np_divide_Inr[OF q]
  from d1 have sh1: "map length (m ! net_at fd) = map length (m3 ! Suc (length m))"
    and w1: "q1 = map2 (map2 fdiv) (m ! net_at fd) (m3 ! Suc (length m))" by blast+
  from d2 have sh2: "map length (m ! net_error_at fd) = map length (m3 ! Suc (length m))"
    and w2: "q2 = map2 (map2 fdiv) (m ! net_error_at fd) (m3 ! Suc (length m))" by blast+
  have s1: "map length q1 = map length (m ! net_at fd)"
    unfolding w1 by (rule map2_shape[OF sh1])
  have "map length q2 = map length (m ! net_error_at fd)"
    unfolding w2 by (rule map2_shape[OF sh2])
  with sh1 sh2 have s2: "map length q2 = map length (m ! net_at fd)"
    by simp
  have v1: "m' ! newflux = q1" and v2: "m' ! newerr = q2"
    using r by (simp_all add: nth_append)
  show ?thesis
    using old s1 s2 v1 v2 d0 r len3 by simp
qed


lemma short_shifted:
  "fluxcorrect_mem (load_table short_exposure) loaded_at [Fin 0, Fin 1] =
     Inr (load_table short_exposure @
       [[[Fin 2, Fin 2, Fin 2], [Fin 2, Fin 2, Fin 2]], [[Fin 2, Fin 2, Fin 2], [Fin 2, Fin 2, Fin 2]],
        [[Fin 1, Fin 1, Fin 1], [Fin 2, Fin 2, Fin 2]], [[Fin 3, Fin 0, Fin 0], [Fin 0, Fin 0, Fin 0]]],
       7, 8)"
  by code_simp

lemma shift_loop_total:
  "ob \<noteq> nb \<Longrightarrow>
   \<forall>j. k \<le> j \<and> j < n \<longrightarrow> (\<exists>f. interp1d px (m ! ob ! j) = Inr f) \<and> j < length ps \<Longrightarrow>
   \<exists>m'. shift_loop m ob nb px ps n k = Inr m'"
proof (induction m ob nb px ps n k rule: shift_loop.induct)
  case (1 m ob nb px ps n order)
  show ?case
  proof (cases "order < n")
    case False
    then show ?thesis by (simp add: shift_loop.simps)
  next
    case True
    with "1.prems"(2) obtain f where f: "interp1d px (m ! ob ! order) = Inr f"
      and o: "order < length ps" by auto
    from o have sh: "row ps order = Inr (ps ! order)" by (simp add: row_def)
    let ?m1 = "m[nb := (m ! nb)[order := map (\<lambda>p. f (fsub p (ps ! order))) px]]"
    have ob1: "?m1 ! ob = m ! ob" using "1.prems"(1) by simp
    have pre: "\<forall>j. order + 1 \<le> j \<and> j < n \<longrightarrow>
        (\<exists>f. interp1d px (?m1 ! ob ! j) = Inr f) \<and> j < length ps"
      unfolding ob1 using "1.prems"(2) by simp
    from "1.IH"[OF True f sh "1.prems"(1) pre] obtain m' where
      "shift_loop ?m1 ob nb px ps n (order + 1) = Inr m'" by blast
    then show ?thesis
      using True f sh by (subst shift_loop.simps) simp
  qed
qed

lemma fluxcorrect_mem_intro:
  assumes "np_divide (m ! net_at fd) (m ! flux_at fd) = Inr quot"
    and "shift_loop (m @ [quot, replicate (length quot) (replicate (pixel_count quot) (Fin 0))])
       (length m) (Suc (length m)) (map (\<lambda>k. Fin (real k)) [0..<pixel_count quot]) pixshift
       (length quot) 0 = Inr m3"
    and "np_divide (m3 ! net_at fd) (m3 ! Suc (length m)) = Inr q1"
    and "np_divide ((m3 @ [q1]) ! net_error_at fd) ((m3 @ [q1]) ! Suc (length m)) = Inr q2"
  shows "fluxcorrect_mem m fd pixshift = Inr (m3 @ [q1, q2], length m3, Suc (length m3))"
  using assms by (simp add: fluxcorrect_mem_def alloc_def Let_def)

lemma strictly_increasing_pixnos: "strictly_increasing (map (\<lambda>k. Fin (real k)) [0..<n])"
  by (simp add: strictly_increasing_nth)

lemma interp1d_pixnos:
  "2 \<le> n \<Longrightarrow> length ys = n \<Longrightarrow>
   interp1d (map (\<lambda>k. Fin (real k)) [0..<n]) ys = Inr (linear_eval (map (\<lambda>k. Fin (real k)) [0..<n]) ys)"
  by (simp add: interp1d_def strictly_increasing_pixnos)

lemma map2_columns:
  "map2 f (map g xs) (map h xs) = map (\<lambda>x. f (g x) (h x)) xs"
  by (induction xs) simp_all

lemma rectangular_shape:
  assumes "rectangular n p a"
  shows "map length a = replicate n p"
proof -
  from assms have l: "length a = n" and r: "\<forall>r\<in>set a. length r = p"
    by (simp_all add: rectangular_def list_all_iff)
  have "map length a = map (\<lambda>r. p) a"
    by (rule map_cong[OF refl]) (use r in blast)
  also have "\<dots> = replicate (length a) p" by (rule map_replicate_const)
  finally show ?thesis using l by simp
qed

lemma shape_rectangular:
  "map length a = replicate n p \<Longrightarrow> rectangular n p a"
proof -
  assume h: "map length a = replicate n p"
  then have "length (map length a) = length (replicate n p)" by simp
  then have l: "length a = n" by simp
  have "length (a ! i) = p" if "i < length a" for i
  proof -
    from that have "map length a ! i = length (a ! i)" by simp
    with h that l show ?thesis by simp
  qed
  with l show ?thesis by (simp add: rectangular_def list_all_length)
qed

lemma np_divide_rectangular:
  assumes "rectangular n p a" and "rectangular n p b"
  shows "np_divide a b = Inr (map2 (map2 fdiv) a b)"
    and "rectangular n p (map2 (map2 fdiv) a b)"
proof -
  note sa = rectangular_shape[OF assms(1)] and sb = rectangular_shape[OF assms(2)]
  from sa sb have s: "map length a = map length b" by (rule trans[OF _ sym])
  then show "np_divide a b = Inr (map2 (map2 fdiv) a b)" by (simp add: np_divide_def)
  from s have "map length (map2 (map2 fdiv) a b) = map length a" by (rule map2_shape)
  then have "map length (map2 (map2 fdiv) a b) = replicate n p" using sa by (rule trans)
  then show "rectangular n p (map2 (map2 fdiv) a b)" by (rule shape_rectangular)
qed

lemma fluxcorrect_mem_total:
  assumes "net_at fd < length m" and "net_error_at fd < length m"
    and "2 \<le> p" and "rectangular n p (m ! net_at fd)" and "rectangular n p (m ! flux_at fd)"
    and "rectangular n p (m ! net_error_at fd)" and "n \<le> length pixshift"
  shows "\<exists>r. fluxcorrect_mem m fd pixshift = Inr r"
proof -
  from np_divide_rectangular[OF assms(4,5)] obtain quot where
    q: "np_divide (m ! net_at fd) (m ! flux_at fd) = Inr quot" and rq: "rectangular n p quot"
    by blast
  define zeros where "zeros = replicate (length quot) (replicate (pixel_count quot) (Fin 0))"
  define px where "px = map (\<lambda>k. Fin (real k)) [0..<pixel_count quot]"
  define m2 where "m2 = m @ [quot, zeros]"
  from rq have lq: "length quot = n"
    unfolding rectangular_def by (rule conjunct1)
  from rq have "\<forall>j<length quot. length (quot ! j) = p"
    unfolding rectangular_def list_all_length by (rule conjunct2)
  then have rows: "length (quot ! j) = p" if "j < n" for j
    unfolding lq using that by blast
  have pc: "pixel_count quot = p" if "0 < n"
  proof -
    from that lq obtain r rs where c: "quot = r # rs" by (cases quot) auto
    with rows[of 0] that have "length r = p" by simp
    with c show ?thesis by (simp add: pixel_count_def)
  qed
  have lz: "length zeros = n" by (simp add: zeros_def lq)
  have m2ob: "m2 ! length m = quot" by (simp add: m2_def nth_append)
  have m2nb: "m2 ! Suc (length m) = zeros" by (simp add: m2_def nth_append)
  have m2len: "length m2 = length m + 2" by (simp add: m2_def)
  have m2old: "m2 ! a = m ! a" if "a < length m" for a
    using that by (simp add: m2_def nth_append)
  have ip: "\<exists>f. interp1d px (quot ! j) = Inr f" if "j < n" for j
  proof -
    from that have "0 < n" by simp
    then have "pixel_count quot = p" by (rule pc)
    with interp1d_pixnos[OF assms(3) rows[OF that]] show ?thesis by (simp add: px_def)
  qed
  have "\<exists>m3. shift_loop m2 (length m) (Suc (length m)) px pixshift (length quot) 0 = Inr m3"
  proof (rule shift_loop_total)
    show "length m \<noteq> Suc (length m)" by simp
    show "\<forall>j. 0 \<le> j \<and> j < length quot \<longrightarrow>
        (\<exists>f. interp1d px (m2 ! length m ! j) = Inr f) \<and> j < length pixshift"
      unfolding m2ob lq using ip assms(7) by simp
  qed
  then obtain m3 where
    l: "shift_loop m2 (length m) (Suc (length m)) px pixshift (length quot) 0 = Inr m3"
    by blast
  note fr = shift_loop_frame[OF l]
  from fr have len3: "length m3 = length m + 2" unfolding m2len by (rule conjunct1)
  from fr have same: "\<forall>a. a \<noteq> Suc (length m) \<longrightarrow> m3 ! a = m2 ! a" by blast
  from fr have lnb: "length (m3 ! Suc (length m)) = n" unfolding m2nb lz by blast
  have pre: "Suc (length m) < length m2" "length quot \<le> length (m2 ! Suc (length m))"
    unfolding m2len m2nb lz lq by simp_all
  have neq: "length m \<noteq> Suc (length m)" by simp
  from shift_loop_rows[OF l neq pre] have filled: "\<forall>j. 0 \<le> j \<and> j < length quot \<longrightarrow>
      (\<exists>f. interp1d px (m2 ! length m ! j) = Inr f \<and> j < length pixshift
         \<and> m3 ! Suc (length m) ! j = map (\<lambda>q. f (fsub q (pixshift ! j))) px)"
    by (rule conjunct1)
  have "length (m3 ! Suc (length m) ! j) = p" if "j < n" for j
  proof -
    from that have "0 < n" by simp
    then have "pixel_count quot = p" by (rule pc)
    then have lpx: "length px = p" by (simp add: px_def)
    from filled that lq obtain f where
      "m3 ! Suc (length m) ! j = map (\<lambda>q. f (fsub q (pixshift ! j))) px" by blast
    with lpx show ?thesis by simp
  qed
  with lnb have rb: "rectangular n p (m3 ! Suc (length m))"
    by (simp add: rectangular_def list_all_length)
  have n3: "m3 ! net_at fd = m ! net_at fd"
    using same assms(1) m2old by simp
  have e3: "(m3 @ [q1]) ! net_error_at fd = m ! net_error_at fd" for q1
    using same assms(2) len3 m2old by (simp add: nth_append)
  have b3: "(m3 @ [q1]) ! Suc (length m) = m3 ! Suc (length m)" for q1
    using len3 by (simp add: nth_append)
  from np_divide_rectangular(1)[OF assms(4) rb] obtain q1 where
    q1: "np_divide (m3 ! net_at fd) (m3 ! Suc (length m)) = Inr q1"
    unfolding n3 by blast
  from np_divide_rectangular(1)[OF assms(6) rb] obtain q2 where
    q2: "np_divide ((m3 @ [q1]) ! net_error_at fd) ((m3 @ [q1]) ! Suc (length m)) = Inr q2"
    unfolding e3 b3 by blast
  have l': "shift_loop (m @ [quot, replicate (length quot) (replicate (pixel_count quot) (Fin 0))])
       (length m) (Suc (length m)) (map (\<lambda>k. Fin (real k)) [0..<pixel_count quot]) pixshift
       (length quot) 0 = Inr m3"
    using l unfolding m2_def zeros_def px_def .
  from fluxcorrect_mem_intro[OF q l' q1 q2] show ?thesis by blast
qed

text \<open>
  C7. When \<open>fluxcorrect\<close> returns, every array that was in memory before the call is
  unchanged, the two results are new arrays, and both have the shape of the \<open>net\<close>
  array, which is also the shape of the \<open>flux\<close> array. It does return when the three
  arrays it reads have one shape with at least two pixels per order and the shift vector
  has an entry for every order.
\<close>

theorem fluxcorrect_frame_and_shape:
  assumes "net_at fd < length m" and "flux_at fd < length m" and "net_error_at fd < length m"
  shows "(fluxcorrect_mem m fd pixshift = Inr (m', newflux, newerr) \<longrightarrow>
        (\<forall>a<length m. m' ! a = m ! a)
        \<and> length m \<le> newflux \<and> newflux < length m' \<and> length m \<le> newerr \<and> newerr < length m'
        \<and> map length (m' ! newflux) = map length (m ! net_at fd)
        \<and> map length (m' ! newerr) = map length (m ! net_at fd)
        \<and> map length (m ! flux_at fd) = map length (m ! net_at fd))
    \<and> (2 \<le> p \<and> rectangular n p (m ! net_at fd) \<and> rectangular n p (m ! flux_at fd)
        \<and> rectangular n p (m ! net_error_at fd) \<and> n \<le> length pixshift \<longrightarrow>
        (\<exists>r. fluxcorrect_mem m fd pixshift = Inr r))"
  using fluxcorrect_mem_frame[OF _ assms] fluxcorrect_mem_total[OF assms(1,3)]
  by blast

text \<open>
  \<open>fluxcorrect\<close> returns on the three-pixel exposure, with two new arrays after the five
  columns of the table.
\<close>

theorem fluxcorrect_frame_and_shape_witness:
  "fluxcorrect_mem (load_table short_exposure) loaded_at [Fin 0, Fin 1] =
     Inr (load_table short_exposure @
       [[[Fin 2, Fin 2, Fin 2], [Fin 2, Fin 2, Fin 2]], [[Fin 2, Fin 2, Fin 2], [Fin 2, Fin 2, Fin 2]],
        [[Fin 1, Fin 1, Fin 1], [Fin 2, Fin 2, Fin 2]], [[Fin 3, Fin 0, Fin 0], [Fin 0, Fin 0, Fin 0]]],
       7, 8)
   \<and> net_at loaded_at < length (load_table short_exposure)
   \<and> flux_at loaded_at < length (load_table short_exposure)
   \<and> net_error_at loaded_at < length (load_table short_exposure)
   \<and> rectangular 2 3 (load_table short_exposure ! net_at loaded_at)
   \<and> rectangular 2 3 (load_table short_exposure ! flux_at loaded_at)
   \<and> rectangular 2 3 (load_table short_exposure ! net_error_at loaded_at)
   \<and> map length (load_table short_exposure ! net_at loaded_at) = [3, 3]"
proof -
  have a: "net_at loaded_at < length (load_table short_exposure)"
    "flux_at loaded_at < length (load_table short_exposure)"
    "net_error_at loaded_at < length (load_table short_exposure)"
    by (simp_all add: loaded_at_def load_table_def)
  have r: "rectangular 2 3 (load_table short_exposure ! net_at loaded_at)"
    "rectangular 2 3 (load_table short_exposure ! flux_at loaded_at)"
    "rectangular 2 3 (load_table short_exposure ! net_error_at loaded_at)"
    by code_simp+
  have s: "map length (load_table short_exposure ! net_at loaded_at) = [3, 3]"
    by code_simp
  from fluxcorrect_frame_and_shape[OF a, where pixshift = "[Fin 0, Fin 1]" and p = 3 and n = 2
      and newflux = 7 and newerr = 8 and m' = "load_table short_exposure @
       [[[Fin 2, Fin 2, Fin 2], [Fin 2, Fin 2, Fin 2]], [[Fin 2, Fin 2, Fin 2], [Fin 2, Fin 2, Fin 2]],
        [[Fin 1, Fin 1, Fin 1], [Fin 2, Fin 2, Fin 2]], [[Fin 3, Fin 0, Fin 0], [Fin 0, Fin 0, Fin 0]]]"]
    short_shifted a r s
  show ?thesis by simp
qed

lemma np_divide_columns:
  assumes "\<forall>r\<in>set fd. length (g r) = length (h r)"
  shows "np_divide (map g fd) (map h fd) = Inr (map (\<lambda>r. map2 fdiv (g r) (h r)) fd)"
proof -
  from assms have "map length (map g fd) = map length (map h fd)" by simp
  then show ?thesis by (simp add: np_divide_def map2_columns)
qed

lemma grid_resample:
  assumes "2 \<le> n" and "k < n"
  shows "linear_eval (map (\<lambda>k. Fin (real k)) [0..<n]) ys (fsub (Fin (real k)) (Fin 0)) =
           resampled_blaze ys k"
proof -
  let ?px = "map (\<lambda>k. Fin (real k)) [0..<n]"
  have q: "fsub (Fin (real k)) (Fin 0) = Fin (real k)" by (simp add: fsub_def)
  have "takeWhile (\<lambda>xi. flt xi (Fin (real k))) ?px = take k ?px"
  proof (rule takeWhile_eq_take_P_nth)
    fix i assume "i < k" "i < length ?px"
    then show "flt (?px ! i) (Fin (real k))" by simp
  next
    assume "k < length ?px"
    then show "\<not> flt (?px ! k) (Fin (real k))" by simp
  qed
  then have "length (takeWhile (\<lambda>xi. flt xi (Fin (real k))) ?px) = length (take k ?px)"
    by (rule arg_cong)
  then have idx: "length (takeWhile (\<lambda>xi. flt xi (fsub (Fin (real k)) (Fin 0))) ?px) = k"
    unfolding q using assms(2) by simp
  have hi: "max 1 (min k (length ?px - 1)) = max 1 k" using assms by simp
  have b: "max 1 k < n" "max 1 k - 1 < n" using assms by auto
  have pk: "?px ! max 1 k = Fin (real (max 1 k))" "?px ! (max 1 k - 1) = Fin (real (max 1 k - 1))"
    using b by simp_all
  show ?thesis
    unfolding linear_eval_def Let_def idx hi pk resampled_blaze_def spec_line_def
    by (rule refl)
qed

lemma resampled_nan:
  assumes "b ! max 1 k = NaN \<or> b ! (max 1 k - 1) = NaN"
  shows "fdiv x (resampled_blaze b k) = NaN"
proof -
  have d: "fdiv x NaN = NaN" by (cases x) simp_all
  have a: "fadd y NaN = NaN" for y by (cases y) simp_all
  have m: "fmul NaN y = NaN" for y by simp
  from assms have "resampled_blaze b k = NaN"
  proof
    assume "b ! max 1 k = NaN"
    then show ?thesis
      by (simp add: resampled_blaze_def spec_line_def Let_def fsub_def)
  next
    assume "b ! (max 1 k - 1) = NaN"
    then show ?thesis
      by (simp add: resampled_blaze_def spec_line_def Let_def a)
  qed
  with d show ?thesis by simp
qed

lemma map2_upt:
  assumes "length xs = p"
  shows "map2 f xs (map g [0..<p]) = map (\<lambda>k. f (xs ! k) (g k)) [0..<p]"
  using assms by (intro nth_equalityI) simp_all

lemma rectangular_column:
  assumes "rectangular n p (column c fd)"
  shows "length fd = n" and "\<forall>r\<in>set fd. length (c r) = p"
  using assms by (simp_all add: rectangular_def column_def list_all_iff)

lemma zero_shift_result:
  assumes "2 \<le> p" and "rectangular n p (column net fd)" and "rectangular n p (column flux fd)"
    and "rectangular n p (column net_error fd)"
  shows "fluxcorrect fd (replicate (length fd) (Fin 0)) =
           Inr (map (\<lambda>r. map (\<lambda>k. fdiv (net r ! k) (resampled_blaze (blaze_row r) k)) [0..<p]) fd,
                map (\<lambda>r. map (\<lambda>k. fdiv (net_error r ! k) (resampled_blaze (blaze_row r) k)) [0..<p]) fd)"
proof (cases "fd = []")
  case True
  then show ?thesis
    by (simp add: fluxcorrect_def fluxcorrect_mem_def load_table_def loaded_at_def column_def
        np_divide_def alloc_def pixel_count_def shift_loop.simps)
next
  case False
  let ?m = "load_table fd"
  let ?quot = "map blaze_row fd"
  let ?new = "map (\<lambda>r. map (\<lambda>k. resampled_blaze (blaze_row r) k) [0..<p]) fd"
  let ?ps = "replicate (length fd) (Fin 0)"
  let ?px = "map (\<lambda>k. Fin (real k)) [0..<p]"
  let ?zeros = "replicate (length ?quot) (replicate (pixel_count ?quot) (Fin 0))"
  let ?m2 = "?m @ [?quot, ?zeros]"
  note ln = rectangular_column(2)[OF assms(2)] and lf = rectangular_column(2)[OF assms(3)]
    and le = rectangular_column(2)[OF assms(4)]
  have lb: "\<forall>r\<in>set fd. length (blaze_row r) = p"
    using ln lf by (simp add: blaze_row_def)
  have cells: "?m ! net_at loaded_at = map net fd" "?m ! flux_at loaded_at = map flux fd"
    "?m ! net_error_at loaded_at = map net_error fd" "length ?m = 5"
    by (simp_all add: load_table_def loaded_at_def column_def)
  have q: "np_divide (?m ! net_at loaded_at) (?m ! flux_at loaded_at) = Inr ?quot"
    unfolding cells blaze_row_def
    by (rule np_divide_columns) (use ln lf in simp)
  from False obtain r0 rest where fd: "fd = r0 # rest" by (cases fd) auto
  with lb have "length (blaze_row r0) = p" by simp
  with fd have pc: "pixel_count ?quot = p" by (simp add: pixel_count_def)
  have rowj: "length (?quot ! j) = p" if "j < length fd" for j
    using lb that by simp
  have ip: "interp1d ?px (?quot ! j) = Inr (linear_eval ?px (?quot ! j))" if "j < length fd" for j
    using interp1d_pixnos[OF assms(1) rowj[OF that]] .
  have m2ob: "?m2 ! length ?m = ?quot" by (simp add: nth_append)
  have "\<exists>m3. shift_loop ?m2 (length ?m) (Suc (length ?m)) ?px ?ps (length ?quot) 0 = Inr m3"
  proof (rule shift_loop_total)
    show "length ?m \<noteq> Suc (length ?m)" by simp
    show "\<forall>j. 0 \<le> j \<and> j < length ?quot \<longrightarrow>
        (\<exists>f. interp1d ?px (?m2 ! length ?m ! j) = Inr f) \<and> j < length ?ps"
      unfolding m2ob using ip by simp
  qed
  then obtain m3 where
    l: "shift_loop ?m2 (length ?m) (Suc (length ?m)) ?px ?ps (length ?quot) 0 = Inr m3" by blast
  from shift_loop_frame[OF l] have len3: "length m3 = 7"
    and same: "\<forall>a. a \<noteq> Suc (length ?m) \<longrightarrow> m3 ! a = ?m2 ! a"
    and lnb: "length (m3 ! Suc (length ?m)) = length fd"
    by (simp_all add: cells nth_append)
  have pre: "Suc (length ?m) < length ?m2" "length ?quot \<le> length (?m2 ! Suc (length ?m))"
    by (simp_all add: nth_append)
  from shift_loop_rows[OF l _ pre] have rows: "\<forall>j. j < length fd \<longrightarrow>
      (\<exists>f. interp1d ?px (?quot ! j) = Inr f \<and> j < length ?ps
         \<and> m3 ! Suc (length ?m) ! j = map (\<lambda>p. f (fsub p (?ps ! j))) ?px)"
    unfolding m2ob by simp
  have nb3: "m3 ! Suc (length ?m) = ?new"
  proof (rule nth_equalityI)
    show "length (m3 ! Suc (length ?m)) = length ?new" using lnb by simp
  next
    fix j assume "j < length (m3 ! Suc (length ?m))"
    then have j: "j < length fd" using lnb by simp
    with rows obtain f where f: "interp1d ?px (?quot ! j) = Inr f"
      and r: "m3 ! Suc (length ?m) ! j = map (\<lambda>p. f (fsub p (?ps ! j))) ?px" by blast
    from f ip[OF j] have "f = linear_eval ?px (?quot ! j)" by simp
    with r j have "m3 ! Suc (length ?m) ! j =
        map (\<lambda>k. linear_eval ?px (?quot ! j) (fsub (Fin (real k)) (Fin 0))) [0..<p]"
      by (simp add: comp_def)
    also have "\<dots> = map (\<lambda>k. resampled_blaze (?quot ! j) k) [0..<p]"
      by (rule map_cong[OF refl]) (use grid_resample[OF assms(1)] in simp)
    also have "\<dots> = ?new ! j" using j by simp
    finally show "m3 ! Suc (length ?m) ! j = ?new ! j" .
  qed
  have n3: "m3 ! net_at loaded_at = map net fd"
    using same cells by (simp add: loaded_at_def nth_append)
  have e3: "(m3 @ [q1]) ! net_error_at loaded_at = map net_error fd" for q1
    using same cells len3 by (simp add: loaded_at_def nth_append)
  have b3: "(m3 @ [q1]) ! Suc (length ?m) = ?new" for q1
    using nb3 len3 cells by (simp add: nth_append)
  have div_rows: "np_divide (map c fd) ?new =
      Inr (map (\<lambda>r. map (\<lambda>k. fdiv (c r ! k) (resampled_blaze (blaze_row r) k)) [0..<p]) fd)"
    if c: "\<forall>r\<in>set fd. length (c r) = p" for c :: "order_row \<Rightarrow> arr1"
  proof -
    have "np_divide (map c fd) (map (\<lambda>r. map (\<lambda>k. resampled_blaze (blaze_row r) k) [0..<p]) fd) =
        Inr (map (\<lambda>r. map2 fdiv (c r) (map (\<lambda>k. resampled_blaze (blaze_row r) k) [0..<p])) fd)"
      by (rule np_divide_columns) (use c in simp)
    also have "map (\<lambda>r. map2 fdiv (c r) (map (\<lambda>k. resampled_blaze (blaze_row r) k) [0..<p])) fd =
        map (\<lambda>r. map (\<lambda>k. fdiv (c r ! k) (resampled_blaze (blaze_row r) k)) [0..<p]) fd"
      by (rule map_cong[OF refl]) (use c map2_upt in blast)
    finally show ?thesis .
  qed
  have q1: "np_divide (m3 ! net_at loaded_at) (m3 ! Suc (length ?m)) =
      Inr (map (\<lambda>r. map (\<lambda>k. fdiv (net r ! k) (resampled_blaze (blaze_row r) k)) [0..<p]) fd)"
    unfolding n3 nb3 by (rule div_rows[OF ln])
  have q2: "np_divide
      ((m3 @ [map (\<lambda>r. map (\<lambda>k. fdiv (net r ! k) (resampled_blaze (blaze_row r) k)) [0..<p]) fd])
         ! net_error_at loaded_at)
      ((m3 @ [map (\<lambda>r. map (\<lambda>k. fdiv (net r ! k) (resampled_blaze (blaze_row r) k)) [0..<p]) fd])
         ! Suc (length ?m)) =
      Inr (map (\<lambda>r. map (\<lambda>k. fdiv (net_error r ! k) (resampled_blaze (blaze_row r) k)) [0..<p]) fd)"
    unfolding e3 b3 by (rule div_rows[OF le])
  have l': "shift_loop ?m2 (length ?m) (Suc (length ?m))
      (map (\<lambda>k. Fin (real k)) [0..<pixel_count ?quot]) ?ps (length ?quot) 0 = Inr m3"
    using l pc by simp
  from fluxcorrect_mem_intro[OF q l' q1 q2] len3 show ?thesis
    by (simp add: fluxcorrect_def nth_append)
qed

text \<open>
  C2, as amended. For an exposure whose counts, flux and count errors have one shape with
  at least two pixels per order, \<open>fluxcorrect\<close> with the all-zero shift returns, pixel by
  pixel, the counts and the count errors divided by the sensitivity \<open>net/flux\<close> as read
  back through the interpolant at the pixel's own position; the returned flux is NaN at
  every pixel where the sensitivity is NaN at one of the two samples the interpolant
  uses there.
\<close>

theorem zero_shift_resamples:
  assumes "2 \<le> p" and "rectangular n p (column net fd)" and "rectangular n p (column flux fd)"
    and "rectangular n p (column net_error fd)"
  shows "fluxcorrect fd (replicate (length fd) (Fin 0)) =
           Inr (map (\<lambda>r. map (\<lambda>k. fdiv (net r ! k) (resampled_blaze (blaze_row r) k)) [0..<p]) fd,
                map (\<lambda>r. map (\<lambda>k. fdiv (net_error r ! k) (resampled_blaze (blaze_row r) k)) [0..<p]) fd)
    \<and> (\<forall>r\<in>set fd. \<forall>k<p.
          blaze_row r ! max 1 k = NaN \<or> blaze_row r ! (max 1 k - 1) = NaN \<longrightarrow>
          fdiv (net r ! k) (resampled_blaze (blaze_row r) k) = NaN)"
  using zero_shift_result[OF assms] resampled_nan by blast

text \<open>
  The exposure with a pixel without counts has one shape; its second pixel has a finite
  sensitivity, and its returned flux is NaN because the sensitivity of the first is.
\<close>

theorem zero_shift_resamples_witness:
  "rectangular 2 3 (column net gap_exposure) \<and> rectangular 2 3 (column flux gap_exposure)
   \<and> rectangular 2 3 (column net_error gap_exposure)
   \<and> fluxcorrect gap_exposure [Fin 0, Fin 0] =
       Inr ([[NaN, NaN, Fin 1], [Fin 2, Fin 2, Fin 2]], [[NaN, NaN, Fin 1], [Fin 1, Fin 1, Fin 1]])
   \<and> blaze_row (gap_exposure ! 0) = [NaN, Fin 2, Fin 2]
   \<and> fdiv (net (gap_exposure ! 0) ! 1) (resampled_blaze (blaze_row (gap_exposure ! 0)) 1) = NaN"
proof -
  have t: "(2::nat) \<le> 3" by simp
  have r: "rectangular 2 3 (column net gap_exposure)" "rectangular 2 3 (column flux gap_exposure)"
    "rectangular 2 3 (column net_error gap_exposure)"
    by code_simp+
  have l: "replicate (length gap_exposure) (Fin 0) = [Fin 0, Fin 0]" by code_simp
  have b: "blaze_row (gap_exposure ! 0) = [NaN, Fin 2, Fin 2]" by code_simp
  have v1: "map (\<lambda>r. map (\<lambda>k. fdiv (net r ! k) (resampled_blaze (blaze_row r) k)) [0..<3])
      gap_exposure = [[NaN, NaN, Fin 1], [Fin 2, Fin 2, Fin 2]]"
    by code_simp
  have v2: "map (\<lambda>r. map (\<lambda>k. fdiv (net_error r ! k) (resampled_blaze (blaze_row r) k)) [0..<3])
      gap_exposure = [[NaN, NaN, Fin 1], [Fin 1, Fin 1, Fin 1]]"
    by code_simp
  have m: "gap_exposure ! 0 \<in> set gap_exposure" by (simp add: gap_exposure_def)
  note z = zero_shift_resamples[OF t r, unfolded l v1 v2]
  from z have e: "fluxcorrect gap_exposure [Fin 0, Fin 0] =
       Inr ([[NaN, NaN, Fin 1], [Fin 2, Fin 2, Fin 2]], [[NaN, NaN, Fin 1], [Fin 1, Fin 1, Fin 1]])"
    by (rule conjunct1)
  from z m have "\<forall>k<3. blaze_row (gap_exposure ! 0) ! max 1 k = NaN
        \<or> blaze_row (gap_exposure ! 0) ! (max 1 k - 1) = NaN \<longrightarrow>
      fdiv (net (gap_exposure ! 0) ! k) (resampled_blaze (blaze_row (gap_exposure ! 0)) k) = NaN"
    by blast
  then have "blaze_row (gap_exposure ! 0) ! max 1 1 = NaN
        \<or> blaze_row (gap_exposure ! 0) ! (max 1 1 - 1) = NaN \<longrightarrow>
      fdiv (net (gap_exposure ! 0) ! 1) (resampled_blaze (blaze_row (gap_exposure ! 0)) 1) = NaN"
    by simp
  then have n: "fdiv (net (gap_exposure ! 0) ! 1)
      (resampled_blaze (blaze_row (gap_exposure ! 0)) 1) = NaN"
    by (simp add: b)
  from r e b n show ?thesis by blast
qed

text \<open>
  C2 as stated fails: one pixel without counts and flux makes the sensitivity NaN there,
  and with the zero shift the returned flux is NaN at that pixel and at its neighbour;
  and the returned error of the second order is its count error over its sensitivity, 1,
  not the error column, 5.
\<close>

theorem zero_shift_not_identity:
  "fluxcorrect gap_exposure [Fin 0, Fin 0] =
     Inr ([[NaN, NaN, Fin 1], [Fin 2, Fin 2, Fin 2]], [[NaN, NaN, Fin 1], [Fin 1, Fin 1, Fin 1]])
   \<and> column flux gap_exposure = [[Fin 0, Fin 1, Fin 1], [Fin 2, Fin 2, Fin 2]]
   \<and> column error gap_exposure = [[Fin 0, Fin 1, Fin 1], [Fin 5, Fin 5, Fin 5]]
   \<and> fluxcorrect gap_exposure [Fin 0, Fin 0]
       \<noteq> Inr (column flux gap_exposure, column error gap_exposure)"
  by code_simp

section \<open>Properties of the batch driver\<close>

lemma ext_loop_result:
  "ext_loop minimize guess file i loc = Inr loc' \<Longrightarrow>
   (\<forall>j. i \<le> j \<and> j < length file \<longrightarrow>
      (\<exists>shift new. findshift minimize (data (file ! j)) guess True = Inr shift
         \<and> fluxcorrect (data (file ! j)) (fst shift) = Inr new
         \<and> (j = length file - 1 \<longrightarrow> loc' = Some new)))
   \<and> (\<not> i < length file \<longrightarrow> loc' = loc)"
proof (induction minimize guess "file" i loc rule: ext_loop.induct)
  case (1 minimize guess hdus i loc)
  show ?case
  proof (cases "i < length hdus")
    case False
    then have "\<And>j. \<not> (i \<le> j \<and> j < length hdus)" by simp
    moreover from False "1.prems" have "loc' = loc" by (simp add: ext_loop.simps)
    ultimately show ?thesis by blast
  next
    case True
    let ?fd = "data (hdus ! i)"
    from "1.prems" True obtain shift new graph where
      s: "findshift minimize ?fd guess True = Inr shift"
      and n: "fluxcorrect ?fd (fst shift) = Inr new"
      and g: "generateplot ?fd (fst new) (snd new) (fst shift) = Inr graph"
      and rec: "ext_loop minimize guess hdus (i + 1) (Some new) = Inr loc'"
      by (subst (asm) ext_loop.simps) (auto simp: Let_def split: sum.splits)
    note ih = "1.IH"[OF True refl s n g rec]
    from ih have ih1: "\<forall>j. i + 1 \<le> j \<and> j < length hdus \<longrightarrow>
      (\<exists>shift new. findshift minimize (data (hdus ! j)) guess True = Inr shift
         \<and> fluxcorrect (data (hdus ! j)) (fst shift) = Inr new
         \<and> (j = length hdus - 1 \<longrightarrow> loc' = Some new))"
      by (rule conjunct1)
    from ih have ih2: "\<not> i + 1 < length hdus \<longrightarrow> loc' = Some new"
      by (rule conjunct2)
    have here: "\<exists>shift new. findshift minimize ?fd guess True = Inr shift
         \<and> fluxcorrect ?fd (fst shift) = Inr new
         \<and> (i = length hdus - 1 \<longrightarrow> loc' = Some new)"
    proof -
      have "i = length hdus - 1 \<longrightarrow> loc' = Some new" using ih2 True by auto
      with s n show ?thesis by blast
    qed
    have "\<forall>j. i \<le> j \<and> j < length hdus \<longrightarrow>
      (\<exists>shift new. findshift minimize (data (hdus ! j)) guess True = Inr shift
         \<and> fluxcorrect (data (hdus ! j)) (fst shift) = Inr new
         \<and> (j = length hdus - 1 \<longrightarrow> loc' = Some new))"
    proof (intro allI impI)
      fix j assume j: "i \<le> j \<and> j < length hdus"
      show "\<exists>shift new. findshift minimize (data (hdus ! j)) guess True = Inr shift
         \<and> fluxcorrect (data (hdus ! j)) (fst shift) = Inr new
         \<and> (j = length hdus - 1 \<longrightarrow> loc' = Some new)"
      proof (cases "j = i")
        case True
        with here show ?thesis by simp
      next
        case False
        with j have "i + 1 \<le> j \<and> j < length hdus" by simp
        with ih1 show ?thesis by blast
      qed
    qed
    with True show ?thesis by simp
  qed
qed

lemma set_flux_Inr:
  assumes "set_flux fd a = Inr d"
  shows "column flux d = a" and "column error d = column error fd"
    and "column wavelength d = column wavelength fd" and "column net d = column net fd"
    and "column net_error d = column net_error fd"
proof -
  from assms have sh: "map length a = map length (column flux fd)"
    and d: "d = map2 (\<lambda>r v. r\<lparr>flux := v\<rparr>) fd a"
    by (auto simp: set_flux_def split: if_splits)
  from sh have "length (map length a) = length (map length (column flux fd))" by simp
  then have len: "length a = length fd" by (simp add: column_def)
  show "column flux d = a"
    unfolding d column_def using len
    by (intro nth_equalityI) simp_all
  show "column error d = column error fd"
    unfolding d column_def using len
    by (intro nth_equalityI) simp_all
  show "column wavelength d = column wavelength fd"
    unfolding d column_def using len
    by (intro nth_equalityI) simp_all
  show "column net d = column net fd"
    unfolding d column_def using len
    by (intro nth_equalityI) simp_all
  show "column net_error d = column net_error fd"
    unfolding d column_def using len
    by (intro nth_equalityI) simp_all
qed

lemma set_error_Inr:
  assumes "set_error fd a = Inr d"
  shows "column error d = a" and "column flux d = column flux fd"
    and "column wavelength d = column wavelength fd" and "column net d = column net fd"
    and "column net_error d = column net_error fd"
proof -
  from assms have sh: "map length a = map length (column error fd)"
    and d: "d = map2 (\<lambda>r v. r\<lparr>error := v\<rparr>) fd a"
    by (auto simp: set_error_def split: if_splits)
  from sh have "length (map length a) = length (map length (column error fd))" by simp
  then have len: "length a = length fd" by (simp add: column_def)
  show "column error d = a"
    unfolding d column_def using len
    by (intro nth_equalityI) simp_all
  show "column flux d = column flux fd"
    unfolding d column_def using len
    by (intro nth_equalityI) simp_all
  show "column wavelength d = column wavelength fd"
    unfolding d column_def using len
    by (intro nth_equalityI) simp_all
  show "column net d = column net fd"
    unfolding d column_def using len
    by (intro nth_equalityI) simp_all
  show "column net_error d = column net_error fd"
    unfolding d column_def using len
    by (intro nth_equalityI) simp_all
qed

lemma fluxfix_file_parts:
  assumes "fluxfix_file minimize guess stamp file loc = Inr (saved, loc')"
    and "2 \<le> length file"
  obtains new d1 d2 where
    "ext_loop minimize guess file 1 loc = Inr (Some new)"
    "set_flux (data (file ! (length file - 1))) (fst new) = Inr d1"
    "set_error d1 (snd new) = Inr d2"
    "saved = (file[0 := (file ! 0)\<lparr>header := header (file ! 0) @ [stamp]\<rparr>])
               [length file - 1 := (file ! (length file - 1))\<lparr>data := d2\<rparr>]"
    "loc' = Some new"
proof -
  from assms(1) obtain loc1 where
    e: "ext_loop minimize guess file 1 loc = Inr loc1"
    by (cases "ext_loop minimize guess file 1 loc") (simp_all add: fluxfix_file_def)
  from assms(2) have r: "row file 0 = Inr (file ! 0)" by (auto simp: row_def)
  from assms(1) e r obtain new where n: "loc1 = Some new"
    by (cases loc1) (simp_all add: fluxfix_file_def)
  let ?file1 = "file[0 := (file ! 0)\<lparr>header := header (file ! 0) @ [stamp]\<rparr>]"
  have k: "?file1 ! (length file - 1) = file ! (length file - 1)"
    using assms(2) by simp
  have l1: "1 < length ?file1" using assms(2) by simp
  from assms(1) e r n l1 k obtain d1 where
    d1: "set_flux (data (file ! (length file - 1))) (fst new) = Inr d1"
    by (cases "set_flux (data (file ! (length file - 1))) (fst new)")
       (simp_all add: fluxfix_file_def Let_def)
  from assms(1) e r n l1 k d1 obtain d2 where
    d2: "set_error d1 (snd new) = Inr d2"
    by (cases "set_error d1 (snd new)") (simp_all add: fluxfix_file_def Let_def)
  from assms(1) e r n l1 k d1 d2 have
    "saved = ?file1[length file - 1 := (file ! (length file - 1))\<lparr>data := d2\<rparr>]"
    and "loc' = Some new"
    by (simp_all add: fluxfix_file_def Let_def)
  with e n d1 d2 show ?thesis using that by blast
qed

text \<open>
  C10. When \<open>fluxfix\<close> has processed a file with at least one table extension, what it
  saves has the corrected flux and error of the last extension written into that
  extension, its other columns unchanged; for every earlier extension the shift and the
  corrected arrays were computed, but the saved extension is the original one.
\<close>

theorem fluxfix_saves_last_extension_only:
  assumes "fluxfix_file minimize guess stamp file loc = Inr (saved, loc')"
    and "2 \<le> length file"
  shows "length saved = length file
    \<and> (\<forall>i. 0 < i \<and> i < length file - 1 \<longrightarrow>
          saved ! i = file ! i
          \<and> (\<exists>shift new. findshift minimize (data (file ! i)) guess True = Inr shift
                \<and> fluxcorrect (data (file ! i)) (fst shift) = Inr new))
    \<and> (\<exists>shift newflux newerr.
          findshift minimize (data (last file)) guess True = Inr shift
          \<and> fluxcorrect (data (last file)) (fst shift) = Inr (newflux, newerr)
          \<and> column flux (data (last saved)) = newflux
          \<and> column error (data (last saved)) = newerr
          \<and> column wavelength (data (last saved)) = column wavelength (data (last file))
          \<and> column net (data (last saved)) = column net (data (last file))
          \<and> column net_error (data (last saved)) = column net_error (data (last file))
          \<and> header (last saved) = header (last file))"
proof -
  let ?k = "length file - 1"
  let ?file1 = "file[0 := (file ! 0)\<lparr>header := header (file ! 0) @ [stamp]\<rparr>]"
  from assms obtain new d1 d2 where
    e: "ext_loop minimize guess file 1 loc = Inr (Some new)"
    and d1: "set_flux (data (file ! ?k)) (fst new) = Inr d1"
    and d2: "set_error d1 (snd new) = Inr d2"
    and s: "saved = ?file1[?k := (file ! ?k)\<lparr>data := d2\<rparr>]"
    by (rule fluxfix_file_parts)
  note loop = ext_loop_result[OF e]
  from assms(2) have ne: "file \<noteq> []" and k: "?k < length file" "1 \<le> ?k" by auto
  have len: "length saved = length file" using s by simp
  have lastf: "last file = file ! ?k" using ne by (simp add: last_conv_nth)
  have "saved \<noteq> []" using len ne by auto
  then have "last saved = saved ! ?k" using len by (simp add: last_conv_nth)
  then have lasts: "last saved = (file ! ?k)\<lparr>data := d2\<rparr>"
    using s k by simp
  have earlier: "\<forall>i. 0 < i \<and> i < ?k \<longrightarrow>
          saved ! i = file ! i
          \<and> (\<exists>shift new. findshift minimize (data (file ! i)) guess True = Inr shift
                \<and> fluxcorrect (data (file ! i)) (fst shift) = Inr new)"
  proof (intro allI impI)
    fix i assume i: "0 < i \<and> i < ?k"
    then have "saved ! i = file ! i" using s by simp
    moreover from i have "1 \<le> i \<and> i < length file" by auto
    with loop have "\<exists>shift new. findshift minimize (data (file ! i)) guess True = Inr shift
                \<and> fluxcorrect (data (file ! i)) (fst shift) = Inr new"
      by blast
    ultimately show "saved ! i = file ! i
          \<and> (\<exists>shift new. findshift minimize (data (file ! i)) guess True = Inr shift
                \<and> fluxcorrect (data (file ! i)) (fst shift) = Inr new)" by blast
  qed
  from loop k obtain shift new' where
    f: "findshift minimize (data (file ! ?k)) guess True = Inr shift"
    and c: "fluxcorrect (data (file ! ?k)) (fst shift) = Inr new'"
    and "Some new = Some new'"
    by blast
  then have c': "fluxcorrect (data (file ! ?k)) (fst shift) = Inr (fst new, snd new)"
    by simp
  note a = set_flux_Inr[OF d1] and b = set_error_Inr[OF d2]
  have "column flux (data (last saved)) = fst new"
    "column error (data (last saved)) = snd new"
    "column wavelength (data (last saved)) = column wavelength (data (last file))"
    "column net (data (last saved)) = column net (data (last file))"
    "column net_error (data (last saved)) = column net_error (data (last file))"
    "header (last saved) = header (last file)"
    unfolding lasts lastf using a b by simp_all
  with f c' lastf have "\<exists>shift newflux newerr.
          findshift minimize (data (last file)) guess True = Inr shift
          \<and> fluxcorrect (data (last file)) (fst shift) = Inr (newflux, newerr)
          \<and> column flux (data (last saved)) = newflux
          \<and> column error (data (last saved)) = newerr
          \<and> column wavelength (data (last saved)) = column wavelength (data (last file))
          \<and> column net (data (last saved)) = column net (data (last file))
          \<and> column net_error (data (last saved)) = column net_error (data (last file))
          \<and> header (last saved) = header (last file)"
    by auto
  with len earlier show ?thesis by blast
qed

lemma sqrt_9: "sqrt 9 = 3"
  by (rule real_sqrt_unique) simp_all

lemma still_fit_two_orders:
  assumes "length fd = 2"
  shows "findshift still_fit fd (Fin 1, Fin 0) True =
     Inr ([Fin 1, Fin 1], [Fin 3, Fin 5], ((Fin 1, Some (Fin 3)), (Fin 0, Some (Fin 4))))"
proof -
  have l: "[0..<length fd] = [0, 1]" using assms by (simp add: upt_rec)
  show ?thesis
    by (simp add: findshift_def start_params_def l Let_def still_fit_def linear_shift_def
        fsq_def sqrt_9 sqrt25)
qed

lemma short_corrected:
  "fluxcorrect short_exposure [Fin 1, Fin 1] =
     Inr ([[Fin 1, Fin 1, Fin 1], [Fin 2, Fin 2, Fin 2]],
          [[Fin 3, Fin 0, Fin 0], [Fin 0, Fin 0, Fin 0]])"
  by code_simp

lemma tilted_corrected:
  "fluxcorrect tilted_exposure [Fin 1, Fin 1] =
     Inr ([[Fin 2, Fin (3 / 2), Fin (4 / 3)], [Fin 2, Fin (3 / 2), Fin (4 / 3)]],
          [[Fin 2, Fin (3 / 2), Fin (4 / 3)], [Fin 2, Fin (3 / 2), Fin (4 / 3)]])"
  by code_simp

lemma short_plot:
  "generateplot short_exposure [[Fin 1, Fin 1, Fin 1], [Fin 2, Fin 2, Fin 2]]
     [[Fin 3, Fin 0, Fin 0], [Fin 0, Fin 0, Fin 0]] [Fin 1, Fin 1] =
     Inr (([Fin 0], [Fin 1]), ([Fin 0], [Fin 1]))"
proof -
  let ?nf = "[[Fin 1, Fin 1, Fin 1], [Fin 2, Fin 2, Fin 2]]"
  let ?ne = "[[Fin 3, Fin 0, Fin 0], [Fin 0, Fin 0, Fin 0]]"
  have l: "length (flux_used short_exposure (Some ?nf)) = 2" by (simp add: flux_used_def)
  have s: "pair_sums (column wavelength short_exposure) (flux_used short_exposure (Some ?nf))
     (err_used short_exposure (Some ?ne)) 5 0 = Inr (PyInt 0, PyInt 0, PyInt 0, PyInt 0)"
    by code_simp
  have "residcalc short_exposure (Some ?nf) (Some ?ne) 5 = Inr ([Fin 0], [Fin 1])"
    by (simp add: residcalc_two_orders[OF l] s resid_of_sums_int_zero)
  with short5 show ?thesis by (simp add: generateplot_def)
qed

lemma tilted_plot:
  "generateplot tilted_exposure [[Fin 2, Fin (3 / 2), Fin (4 / 3)], [Fin 2, Fin (3 / 2), Fin (4 / 3)]]
     [[Fin 2, Fin (3 / 2), Fin (4 / 3)], [Fin 2, Fin (3 / 2), Fin (4 / 3)]] [Fin 1, Fin 1] =
     Inr (([Fin 0], [Fin 1]), ([Fin 0], [Fin 1]))"
proof -
  let ?nf = "[[Fin 2, Fin (3 / 2), Fin (4 / 3)], [Fin 2, Fin (3 / 2), Fin (4 / 3)]]"
  have l: "length (flux_used tilted_exposure (Some ?nf)) = 2" by (simp add: flux_used_def)
  have l0: "length (flux_used tilted_exposure None) = 2"
    by (simp add: flux_used_def column_def tilted_exposure_def)
  have s: "pair_sums (column wavelength tilted_exposure) (flux_used tilted_exposure (Some ?nf))
     (err_used tilted_exposure (Some ?nf)) 5 0 = Inr (PyInt 0, PyInt 0, PyInt 0, PyInt 0)"
    by code_simp
  have s0: "pair_sums (column wavelength tilted_exposure) (flux_used tilted_exposure None)
     (err_used tilted_exposure None) 5 0 = Inr (PyInt 0, PyInt 0, PyInt 0, PyInt 0)"
    by code_simp
  have "residcalc tilted_exposure (Some ?nf) (Some ?nf) 5 = Inr ([Fin 0], [Fin 1])"
    by (simp add: residcalc_two_orders[OF l] s resid_of_sums_int_zero)
  moreover have "residcalc tilted_exposure None None 5 = Inr ([Fin 0], [Fin 1])"
    by (simp add: residcalc_two_orders[OF l0] s0 resid_of_sums_int_zero)
  ultimately show ?thesis by (simp add: generateplot_def)
qed

lemma demo_loop:
  "ext_loop still_fit (Fin 1, Fin 0) demo_file 1 None =
     Inr (Some ([[Fin 2, Fin (3 / 2), Fin (4 / 3)], [Fin 2, Fin (3 / 2), Fin (4 / 3)]],
                [[Fin 2, Fin (3 / 2), Fin (4 / 3)], [Fin 2, Fin (3 / 2), Fin (4 / 3)]]))"
proof -
  have l: "length demo_file = 3" "data (demo_file ! Suc 0) = short_exposure"
    "data (demo_file ! 2) = tilted_exposure" "data (demo_file ! Suc (Suc 0)) = tilted_exposure"
    by (simp_all add: demo_file_def)
  have n: "length short_exposure = 2" "length tilted_exposure = 2"
    by (simp_all add: short_exposure_def tilted_exposure_def)
  show ?thesis
    apply (subst ext_loop.simps)
    apply (simp add: l Let_def still_fit_two_orders[OF n(1)] short_corrected short_plot)
    apply (subst ext_loop.simps)
    apply (simp add: l Let_def still_fit_two_orders[OF n(2)] tilted_corrected tilted_plot)
    apply (subst ext_loop.simps)
    apply (simp add: l)
    done
qed

lemma demo_saved:
  "fluxfix_file still_fit (Fin 1, Fin 0) ''corrected'' demo_file None =
     Inr ([\<lparr>header = [''SIMPLE'', ''corrected''], data = []\<rparr>,
           \<lparr>header = [''EXT1''], data = short_exposure\<rparr>,
           \<lparr>header = [''EXT2''], data =
              [mk_row [1, 2, 3] [4, 6, 8] [2, 3 / 2, 4 / 3] [2, 3 / 2, 4 / 3] [4, 6, 8],
               mk_row [2, 3, 4] [4, 6, 8] [2, 3 / 2, 4 / 3] [2, 3 / 2, 4 / 3] [4, 6, 8]]\<rparr>],
          Some ([[Fin 2, Fin (3 / 2), Fin (4 / 3)], [Fin 2, Fin (3 / 2), Fin (4 / 3)]],
                [[Fin 2, Fin (3 / 2), Fin (4 / 3)], [Fin 2, Fin (3 / 2), Fin (4 / 3)]]))"
  using demo_loop
  by (simp add: fluxfix_file_def Let_def)
     (simp add: demo_file_def row_def set_flux_def set_error_def column_def tilted_exposure_def
        mk_row_def)

text \<open>The file with two extensions is saved with only the second one corrected.\<close>

theorem fluxfix_saves_last_extension_only_witness:
  "fluxfix_file still_fit (Fin 1, Fin 0) ''corrected'' demo_file None =
     Inr ([\<lparr>header = [''SIMPLE'', ''corrected''], data = []\<rparr>,
           \<lparr>header = [''EXT1''], data = short_exposure\<rparr>,
           \<lparr>header = [''EXT2''], data =
              [mk_row [1, 2, 3] [4, 6, 8] [2, 3 / 2, 4 / 3] [2, 3 / 2, 4 / 3] [4, 6, 8],
               mk_row [2, 3, 4] [4, 6, 8] [2, 3 / 2, 4 / 3] [2, 3 / 2, 4 / 3] [4, 6, 8]]\<rparr>],
          Some ([[Fin 2, Fin (3 / 2), Fin (4 / 3)], [Fin 2, Fin (3 / 2), Fin (4 / 3)]],
                [[Fin 2, Fin (3 / 2), Fin (4 / 3)], [Fin 2, Fin (3 / 2), Fin (4 / 3)]]))
   \<and> 2 \<le> length demo_file
   \<and> demo_file ! 1 = \<lparr>header = [''EXT1''], data = short_exposure\<rparr>"
proof -
  have l: "2 \<le> length demo_file" by (simp add: demo_file_def)
  from fluxfix_saves_last_extension_only[OF demo_saved l] demo_saved l
  show ?thesis by (simp add: demo_file_def)
qed

end
